theory Spec2Isabelle
  imports Complex_Main "HOL-Library.Product_Lexorder" "HOL-Library.Multiset"
begin

section \<open>Data model\<close>

text \<open>
  The converters work on Python dicts. A dict whose keys are fixed by the extraction
  backend is a record here; a key that the code reads with \<^verbatim>\<open>.get\<close> is an optional
  field (\<open>None\<close>: the key is absent), a key that the code subscripts is a plain field.
  The \<^verbatim>\<open>bounding_box\<close> dict is read both ways (\<^verbatim>\<open>bbox.get("y_min", 0)\<close> and
  \<^verbatim>\<open>p_bbox["x_max"]\<close>), so it stays a dict: an association list from key to number, where
  a subscript of an absent key raises \<^verbatim>\<open>KeyError\<close>.
  Coordinates are Python numbers, modelled as exact rationals: the assembler only compares
  them and takes the sign of a difference, where the exact value decides. Font sizes and
  thresholds are floats, whose multiplication and rounding are inexact; the section on
  \<^verbatim>\<open>role_detector.py\<close> models them as IEEE doubles.
  A \<open>char\<close> stands for one character of a Python string.
\<close>

datatype error = KeyError | ValueError

type_synonym bbox = "(string \<times> rat) list"

datatype role = Title | SectionHeading

record font_info =
  font_name :: string
  font_size :: "rat option"
  bold :: "bool option"

record element =
  elem_id :: string
  page_number :: "int option"
  bounding_box :: "bbox option"

record para = element +
  content :: string
  font :: "font_info option"
  role :: "role option"

datatype cell_kind = ColumnHeader | Content

record cell =
  row_index :: nat
  column_index :: nat
  row_span :: "int option"
  column_span :: "int option"
  cell_content :: string
  kind :: "cell_kind option"

record table = element +
  rows :: int
  columns :: int
  cells :: "cell list"

record image = element +
  mime_type :: "string option"
  data :: "string option"

datatype block_type = Paragraph | Table | Image

record content_block =
  block_type :: block_type
  page :: int
  y_position :: rat
  content_id :: string

record document =
  model_used :: string
  pages :: int
  paragraphs :: "para list"
  tables :: "table list"
  images :: "image list"
  full_text :: string
  content_blocks :: "content_block list"

subsection \<open>Dict access and exceptions\<close>

text \<open>\<^verbatim>\<open>d[k]\<close>: the value, or \<^verbatim>\<open>KeyError\<close>.\<close>

definition getitem :: "bbox \<Rightarrow> string \<Rightarrow> error + rat" where
  "getitem d k = (case map_of d k of None \<Rightarrow> Inl KeyError | Some v \<Rightarrow> Inr v)"

text \<open>\<^verbatim>\<open>d.get(k, v0)\<close>.\<close>

definition get_default :: "bbox \<Rightarrow> string \<Rightarrow> rat \<Rightarrow> rat" where
  "get_default d k v0 = (case map_of d k of None \<Rightarrow> v0 | Some v \<Rightarrow> v)"

text \<open>Sequencing of two computations that may raise.\<close>

definition bindE :: "error + 'a \<Rightarrow> ('a \<Rightarrow> error + 'b) \<Rightarrow> error + 'b" where
  "bindE m f = (case m of Inl e \<Rightarrow> Inl e | Inr v \<Rightarrow> f v)"

section \<open>result_assembler.py\<close>

subsection \<open>overlaps_any_table\<close>

text \<open>
  \<^verbatim>\<open>max(0, min(p[hi], t[hi]) - max(p[lo], t[lo]))\<close>, the four subscripts in the order
  Python evaluates them.
\<close>

definition overlap_1d :: "bbox \<Rightarrow> bbox \<Rightarrow> string \<Rightarrow> string \<Rightarrow> error + rat" where
  "overlap_1d p_bbox t_bbox lo hi =
     bindE (getitem p_bbox hi) (\<lambda>p_hi.
     bindE (getitem t_bbox hi) (\<lambda>t_hi.
     bindE (getitem p_bbox lo) (\<lambda>p_lo.
     bindE (getitem t_bbox lo) (\<lambda>t_lo.
       Inr (max 0 (min p_hi t_hi - max p_lo t_lo))))))"

text \<open>
  The loop \<^verbatim>\<open>for table in tables\<close> of \<^verbatim>\<open>_overlaps_any_table\<close>, with the paragraph's
  truthy bounding box at hand. \<^verbatim>\<open>not t_bbox\<close> holds for an absent key and for the
  empty dict; the page numbers are compared as \<^verbatim>\<open>.get\<close> returns them, so two absent
  page numbers are equal.
\<close>

fun tables_loop :: "para \<Rightarrow> bbox \<Rightarrow> table list \<Rightarrow> error + bool" where
  "tables_loop para p_bbox [] = Inr False"
| "tables_loop para p_bbox (t # ts) =
     (case bounding_box t of
        None \<Rightarrow> tables_loop para p_bbox ts
      | Some t_bbox \<Rightarrow>
          if t_bbox = [] then tables_loop para p_bbox ts
          else if page_number para \<noteq> page_number t then tables_loop para p_bbox ts
          else
            bindE (overlap_1d p_bbox t_bbox ''x_min'' ''x_max'') (\<lambda>overlap_x.
            bindE (overlap_1d p_bbox t_bbox ''y_min'' ''y_max'') (\<lambda>overlap_y.
              if overlap_x > 0 \<and> overlap_y > 0 then Inr True
              else tables_loop para p_bbox ts)))"

definition overlaps_any_table :: "para \<Rightarrow> table list \<Rightarrow> error + bool" where
  "overlaps_any_table para ts =
     (case bounding_box para of
        None \<Rightarrow> Inr False
      | Some p_bbox \<Rightarrow> if p_bbox = [] then Inr False else tables_loop para p_bbox ts)"

subsection \<open>filter_table_overlaps\<close>

text \<open>The loop \<^verbatim>\<open>for para in paragraphs\<close>, with the list \<^verbatim>\<open>filtered\<close> built so far.\<close>

fun filter_loop :: "para list \<Rightarrow> para list \<Rightarrow> table list \<Rightarrow> error + para list" where
  "filter_loop filtered [] ts = Inr filtered"
| "filter_loop filtered (para # ps) ts =
     bindE (overlaps_any_table para ts) (\<lambda>b.
       filter_loop (if \<not> b then filtered @ [para] else filtered) ps ts)"

definition filter_table_overlaps :: "para list \<Rightarrow> table list \<Rightarrow> error + para list" where
  "filter_table_overlaps ps ts = (if ts = [] then Inr ps else filter_loop [] ps ts)"

subsection \<open>assemble\<close>

text \<open>
  \<^verbatim>\<open>elem.get("bounding_box", {}).get("y_min", 0)\<close> and \<^verbatim>\<open>elem.get("page_number", 1)\<close>,
  the same for a paragraph, a table and an image.
\<close>

definition y_min_of :: "'a element_scheme \<Rightarrow> rat" where
  "y_min_of e = get_default (case bounding_box e of None \<Rightarrow> [] | Some b \<Rightarrow> b) ''y_min'' 0"

definition page_of :: "'a element_scheme \<Rightarrow> int" where
  "page_of e = (case page_number e of None \<Rightarrow> 1 | Some n \<Rightarrow> n)"

definition append_block ::
  "block_type \<Rightarrow> content_block list \<Rightarrow> 'a element_scheme \<Rightarrow> content_block list" where
  "append_block ty blocks e =
     blocks @ [\<lparr>block_type = ty, page = page_of e, y_position = y_min_of e,
                content_id = elem_id e\<rparr>]"

text \<open>\<^verbatim>\<open>sep.join(parts)\<close>.\<close>

fun join :: "string \<Rightarrow> string list \<Rightarrow> string" where
  "join sep [] = []"
| "join sep [s] = s"
| "join sep (s # t # ss) = s @ sep @ join sep (t # ss)"

text \<open>
  \<^verbatim>\<open>list.sort(key=...)\<close> is a stable sort; \<open>sort_key\<close> is the stable insertion sort
  of the list library. The key is the tuple \<^verbatim>\<open>(b["page"], b["y_position"])\<close>, compared
  lexicographically as Python compares tuples.
\<close>

definition block_key :: "content_block \<Rightarrow> int \<times> rat" where
  "block_key b = (page b, y_position b)"

definition assemble ::
  "para list \<Rightarrow> table list \<Rightarrow> image list \<Rightarrow> int \<Rightarrow> error + document" where
  "assemble ps ts imgs total_pages =
     bindE (filter_table_overlaps ps ts) (\<lambda>filtered_paragraphs.
       let blocks1 = foldl (append_block Paragraph) [] filtered_paragraphs;
           blocks2 = foldl (append_block Table) blocks1 ts;
           blocks3 = foldl (append_block Image) blocks2 imgs;
           sorted_blocks = sort_key block_key blocks3;
           text_joined = join [CHR 0x0A] (map content filtered_paragraphs)
       in Inr \<lparr>model_used = ''pymupdf'', pages = total_pages,
                paragraphs = filtered_paragraphs, tables = ts, images = imgs,
                full_text = text_joined, content_blocks = sorted_blocks\<rparr>)"

section \<open>role_detector.py\<close>

subsection \<open>Floats\<close>

text \<open>
  A Python float is an IEEE double: a number \<open>m * 2^e\<close> with an integer \<open>m\<close> of at most
  53 bits. A double is denoted by the rational that it is. \<open>py_float x\<close> is the double
  nearest to the rational \<open>x\<close>, a tie going to the even \<open>m\<close>: the value of the literal
  written as \<open>x\<close>, so the float \<^verbatim>\<open>10.8\<close> is \<open>py_float (54 / 5)\<close>, which is a little above
  54/5. An integer of at most 53 bits is its own double. Every float operation returns the
  double nearest to the exact result. The ends of the exponent range, infinities and NaN
  are left out: font sizes are far from them.
\<close>

definition pow2 :: "int \<Rightarrow> rat" where
  "pow2 e = (if e \<ge> 0 then 2 ^ nat e else 1 / 2 ^ nat (- e))"

text \<open>The number of binary digits of a positive integer.\<close>

function bit_length :: "int \<Rightarrow> int" where
  "bit_length n = (if n \<le> 0 then 0 else 1 + bit_length (n div 2))"
  by pat_completeness auto
termination
  by (relation "measure nat") auto

text \<open>The nearest integer, a tie going to the even one.\<close>

definition round_half_even :: "rat \<Rightarrow> int" where
  "round_half_even y =
     (let f = \<lfloor>y\<rfloor>; d = y - of_int f
      in if d < 1 / 2 then f else if 1 / 2 < d then f + 1 else if even f then f else f + 1)"

text \<open>
  The exponent \<open>e\<close> of a number other than 0: \<open>2^e \<le> |x| < 2^(e+1)\<close>. It is the
  difference of the bit lengths of numerator and denominator, or one less.
\<close>

definition float_exponent :: "rat \<Rightarrow> int" where
  "float_exponent x =
     (let (p, q) = quotient_of \<bar>x\<bar>;
          d = bit_length p - bit_length q
      in if pow2 d \<le> \<bar>x\<bar> then d else d - 1)"

definition py_float :: "rat \<Rightarrow> rat" where
  "py_float x =
     (if x = 0 then 0
      else let ulp = pow2 (float_exponent x - 52)
           in of_int (round_half_even (x / ulp)) * ulp)"

text \<open>\<^verbatim>\<open>a * b\<close> on floats.\<close>

definition float_mul :: "rat \<Rightarrow> rat \<Rightarrow> rat" where
  "float_mul a b = py_float (py_float a * py_float b)"

subsection \<open>The detector\<close>

text \<open>
  \<^verbatim>\<open>para.get("font", {}).get("size", 12.0)\<close> and \<^verbatim>\<open>para.get("font", {}).get("bold", False)\<close>.
  The size that the dict holds is a float (or a small integer): the field is read as the
  double that it denotes.
\<close>

definition get_font_size :: "para \<Rightarrow> rat" where
  "get_font_size para =
     py_float (case font para of
                 None \<Rightarrow> 12
               | Some f \<Rightarrow> (case font_size f of None \<Rightarrow> 12 | Some s \<Rightarrow> s))"

definition get_bold :: "para \<Rightarrow> bool" where
  "get_bold para =
     (case font para of
        None \<Rightarrow> False
      | Some f \<Rightarrow> (case bold f of None \<Rightarrow> False | Some b \<Rightarrow> b))"

text \<open>
  \<^verbatim>\<open>round(size, 1)\<close> on a float: the exact value of the double is rounded to the nearest
  multiple of one tenth, a tie going to the even one, and the result is the double nearest
  to that decimal. So \<^verbatim>\<open>round(12.65, 1)\<close> is \<^verbatim>\<open>12.7\<close>, the double \<^verbatim>\<open>12.65\<close> being
  above 12.65.
\<close>

definition py_round1 :: "rat \<Rightarrow> rat" where
  "py_round1 x = py_float (of_int (round_half_even (py_float x * 10)) / 10)"

text \<open>
  \<^verbatim>\<open>collections.Counter\<close>: a dict from element to count, in the order the elements
  were first seen. \<^verbatim>\<open>most_common(1)\<close> is \<^verbatim>\<open>max\<close> over the items by count, which
  keeps the first of several maximal items.
\<close>

fun counter_incr :: "('a \<times> nat) list \<Rightarrow> 'a \<Rightarrow> ('a \<times> nat) list" where
  "counter_incr [] x = [(x, 1)]"
| "counter_incr ((k, n) # kvs) x =
     (if k = x then (k, Suc n) # kvs else (k, n) # counter_incr kvs x)"

definition Counter :: "'a list \<Rightarrow> ('a \<times> nat) list" where
  "Counter xs = foldl counter_incr [] xs"

fun max_by_count :: "('a \<times> nat) \<Rightarrow> ('a \<times> nat) list \<Rightarrow> ('a \<times> nat)" where
  "max_by_count best [] = best"
| "max_by_count best (kv # kvs) = max_by_count (if snd best < snd kv then kv else best) kvs"

text \<open>
  The list \<^verbatim>\<open>sizes\<close> after the loop of \<^verbatim>\<open>_detect_body_font_size\<close>: every paragraph
  extends it by \<^verbatim>\<open>[round(size, 1)] * weight\<close>.
\<close>

definition weighted_sizes :: "para list \<Rightarrow> rat list" where
  "weighted_sizes ps =
     foldl (\<lambda>sizes para.
              sizes @ replicate (min (length (content para)) 200) (py_round1 (get_font_size para)))
       [] ps"

text \<open>
  A non-empty \<^verbatim>\<open>sizes\<close> gives a non-empty counter, so the subscript
  \<^verbatim>\<open>most_common(1)[0]\<close> cannot fail: the branch for the empty counter is never taken
  (lemma \<open>Counter_eq_Nil\<close>).
\<close>

definition detect_body_font_size :: "para list \<Rightarrow> rat" where
  "detect_body_font_size ps =
     (let sizes = weighted_sizes ps
      in if sizes = [] then 12
         else (case Counter sizes of
                 [] \<Rightarrow> 12
               | kv # kvs \<Rightarrow> fst (max_by_count kv kvs)))"

text \<open>
  \<^verbatim>\<open>_classify_single\<close>, its tests in the order of the source. The products
  \<^verbatim>\<open>body_size * 1.5\<close> and \<^verbatim>\<open>body_size * 1.1\<close> are float products with the doubles of
  the literals \<^verbatim>\<open>1.5\<close> and \<^verbatim>\<open>1.1\<close>; comparisons of doubles are exact. The role
  \<^verbatim>\<open>None\<close> is body text.
\<close>

definition classify_single :: "rat \<Rightarrow> bool \<Rightarrow> rat \<Rightarrow> rat \<Rightarrow> rat \<Rightarrow> role option" where
  "classify_single fsize is_bold body_size title_threshold heading_threshold =
     (if fsize \<ge> title_threshold then Some Title
      else if fsize \<ge> float_mul body_size (py_float (3 / 2)) \<and> is_bold then Some Title
      else if fsize \<ge> heading_threshold then Some SectionHeading
      else if is_bold \<and> fsize > float_mul body_size (py_float (11 / 10))
        then Some SectionHeading
      else None)"

text \<open>
  \<^verbatim>\<open>classify\<close> writes \<^verbatim>\<open>para["role"]\<close> in place and returns nothing; the model returns
  the list of the updated paragraphs. The two thresholds are floats, read as the doubles
  that they denote.
\<close>

definition classify :: "para list \<Rightarrow> rat \<Rightarrow> rat \<Rightarrow> para list" where
  "classify ps title_threshold heading_threshold =
     (if ps = [] then ps
      else
        let body_size = detect_body_font_size ps
        in map (\<lambda>para. para\<lparr>role :=
                  classify_single (get_font_size para) (get_bold para) body_size
                    (py_float title_threshold) (py_float heading_threshold)\<rparr>) ps)"

section \<open>html_converter.py\<close>

text \<open>\<^verbatim>\<open>text.replace(old, new)\<close> for a pattern \<^verbatim>\<open>old\<close> of one character.\<close>

definition replace_char :: "char \<Rightarrow> string \<Rightarrow> string \<Rightarrow> string" where
  "replace_char old new s = concat (map (\<lambda>c. if c = old then new else [c]) s)"

definition escape_html :: "string \<Rightarrow> string" where
  "escape_html s =
     replace_char (CHR 0x27) ''&#039;''
       (replace_char (CHR 0x22) ''&quot;''
         (replace_char (CHR ''>'') ''&gt;''
           (replace_char (CHR ''<'') ''&lt;''
             (replace_char (CHR ''&'') ''&amp;'' s))))"

definition get_role_tag :: "role option \<Rightarrow> string" where
  "get_role_tag r =
     (if r = Some Title then ''h1'' else if r = Some SectionHeading then ''h2'' else ''p'')"

text \<open>\<^verbatim>\<open>str(n)\<close> of an integer, as an f-string formats it.\<close>

function digits_of :: "nat \<Rightarrow> string" where
  "digits_of n =
     (if n < 10 then [char_of (48 + n)] else digits_of (n div 10) @ [char_of (48 + n mod 10)])"
  by pat_completeness auto
termination
  by (relation "measure (\<lambda>n. n)") auto

definition str_int :: "int \<Rightarrow> string" where
  "str_int i = (if i < 0 then CHR ''-'' # digits_of (nat (- i)) else digits_of (nat i))"

text \<open>
  The loop \<^verbatim>\<open>while len(rows) <= cell["row_index"]: rows.append([None] * columns)\<close>.
\<close>

function pad_rows :: "int \<Rightarrow> cell option list list \<Rightarrow> nat \<Rightarrow> cell option list list" where
  "pad_rows cols grid r =
     (if length grid \<le> r then pad_rows cols (grid @ [replicate (nat cols) None]) r else grid)"
  by pat_completeness auto
termination
  by (relation "measure (\<lambda>(cols, grid, r). Suc r - length grid)") auto

text \<open>
  One round of \<^verbatim>\<open>for cell in table.get("cells", [])\<close>. The indices are those that
  \<^verbatim>\<open>enumerate\<close> gave the cells, natural numbers; after the padding the row subscript is
  in range.
\<close>

definition place_cell :: "int \<Rightarrow> cell option list list \<Rightarrow> cell \<Rightarrow> cell option list list" where
  "place_cell cols grid c =
     (let grid1 = pad_rows cols grid (row_index c)
      in if column_index c < length (grid1 ! row_index c)
         then grid1[row_index c := (grid1 ! row_index c)[column_index c := Some c]]
         else grid1)"

definition span_attr :: "string \<Rightarrow> int option \<Rightarrow> string" where
  "span_attr attr_name sp =
     (case sp of
        None \<Rightarrow> []
      | Some n \<Rightarrow> if n > 1 then '' '' @ attr_name @ ''=\"'' @ str_int n @ ''\"'' else [])"

definition render_cell :: "cell option \<Rightarrow> string" where
  "render_cell slot =
     (case slot of
        None \<Rightarrow> ''<td></td>''
      | Some c \<Rightarrow>
          let tag = (if kind c = Some ColumnHeader then ''th'' else ''td'');
              colspan = span_attr ''colspan'' (column_span c);
              rowspan = span_attr ''rowspan'' (row_span c)
          in ''<'' @ tag @ colspan @ rowspan @ ''>'' @ escape_html (cell_content c)
             @ ''</'' @ tag @ ''>'')"

definition render_row :: "cell option list \<Rightarrow> string" where
  "render_row row = ''<tr>'' @ concat (map render_cell row) @ ''</tr>''"

definition table_to_html :: "table \<Rightarrow> string" where
  "table_to_html t =
     ''<table border=\"1\" id=\"'' @ elem_id t @ ''\"><tbody>''
     @ concat (map render_row (foldl (place_cell (columns t)) [] (cells t)))
     @ ''</tbody></table>''"

text \<open>
  The lookup dicts \<^verbatim>\<open>{e["id"]: e for e in ...}\<close>: the last element with an id is the one
  the dict keeps.
\<close>

definition by_id :: "'a element_scheme list \<Rightarrow> string \<Rightarrow> 'a element_scheme option" where
  "by_id es = map_of (rev (map (\<lambda>e. (elem_id e, e)) es))"

definition render_block :: "document \<Rightarrow> content_block \<Rightarrow> string" where
  "render_block d b =
     (case block_type b of
        Paragraph \<Rightarrow>
          (case by_id (paragraphs d) (content_id b) of
             None \<Rightarrow> []
           | Some para \<Rightarrow>
               let tag = get_role_tag (role para)
               in ''<'' @ tag @ ''>'' @ escape_html (content para) @ ''</'' @ tag @ ''>'')
      | Table \<Rightarrow>
          (case by_id (tables d) (content_id b) of
             None \<Rightarrow> []
           | Some t \<Rightarrow> table_to_html t)
      | Image \<Rightarrow>
          (case by_id (images d) (content_id b) of
             None \<Rightarrow> []
           | Some img \<Rightarrow>
               (case data img of
                  None \<Rightarrow> []
                | Some payload \<Rightarrow>
                    if payload = [] then []
                    else ''<img src=\"data:''
                         @ (case mime_type img of None \<Rightarrow> ''image/png'' | Some m \<Rightarrow> m)
                         @ '';base64,'' @ payload @ ''\" />'')))"

definition convert :: "document \<Rightarrow> string" where
  "convert d =
     ''<html><head><meta charset=\"utf-8\"></head><body>''
     @ concat (map (render_block d) (content_blocks d))
     @ ''</body></html>''"

section \<open>page_filter.py\<close>

text \<open>\<^verbatim>\<open>s.split(sep)\<close> for a separator of one character.\<close>

fun split_acc :: "char \<Rightarrow> string \<Rightarrow> string \<Rightarrow> string list" where
  "split_acc sep cur [] = [cur]"
| "split_acc sep cur (x # xs) =
     (if x = sep then cur # split_acc sep [] xs else split_acc sep (cur @ [x]) xs)"

definition split_on :: "char \<Rightarrow> string \<Rightarrow> string list" where
  "split_on sep s = split_acc sep [] s"

text \<open>
  \<^verbatim>\<open>s.strip()\<close>. The whitespace of \<^verbatim>\<open>str.isspace\<close> among the first 256 characters:
  tab to carriage return, the four separators \<^verbatim>\<open>\x1c\<close> to \<^verbatim>\<open>\x1f\<close>, the space,
  \<^verbatim>\<open>\x85\<close> and \<^verbatim>\<open>\xa0\<close>.
\<close>

definition is_space :: "char \<Rightarrow> bool" where
  "is_space c =
     (let n = of_char c :: nat
      in (9 \<le> n \<and> n \<le> 13) \<or> (28 \<le> n \<and> n \<le> 32) \<or> n = 133 \<or> n = 160)"

definition strip :: "string \<Rightarrow> string" where
  "strip s = rev (dropWhile is_space (rev (dropWhile is_space s)))"

text \<open>
  \<^verbatim>\<open>int(s)\<close> on a string: surrounding whitespace, an optional sign, then decimal
  digits with single underscores allowed between digits. \<open>None\<close> is \<^verbatim>\<open>ValueError\<close>.
  The interpreter's limit on the number of digits of a literal is left out.
\<close>

definition is_digit :: "char \<Rightarrow> bool" where
  "is_digit c = (let n = of_char c :: nat in 48 \<le> n \<and> n \<le> 57)"

fun digit_groups :: "bool \<Rightarrow> string \<Rightarrow> bool" where
  "digit_groups after_digit [] = after_digit"
| "digit_groups after_digit (c # cs) =
     (if is_digit c then digit_groups True cs
      else if c = CHR ''_'' \<and> after_digit then digit_groups False cs
      else False)"

definition digits_value :: "string \<Rightarrow> int" where
  "digits_value cs =
     foldl (\<lambda>acc c. 10 * acc + (int (of_char c) - 48)) 0 (filter is_digit cs)"

definition py_int :: "string \<Rightarrow> int option" where
  "py_int s =
     (let t = strip s;
          negative = (t \<noteq> [] \<and> hd t = CHR ''-'');
          body = (if t \<noteq> [] \<and> (hd t = CHR ''-'' \<or> hd t = CHR ''+'') then tl t else t)
      in if digit_groups False body
         then Some (if negative then - digits_value body else digits_value body)
         else None)"

definition int_or_raise :: "string \<Rightarrow> error + int" where
  "int_or_raise s = (case py_int s of None \<Rightarrow> Inl ValueError | Some n \<Rightarrow> Inr n)"

text \<open>
  The loop \<^verbatim>\<open>for part in page_range.split(',')\<close>, with the set \<^verbatim>\<open>pages\<close> built so
  far. \<^verbatim>\<open>part.split('-', 1)\<close> cuts at the first hyphen.
\<close>

fun parse_loop :: "int set \<Rightarrow> string list \<Rightarrow> error + int set" where
  "parse_loop pgs [] = Inr pgs"
| "parse_loop pgs (raw # rest) =
     (let part = strip raw
      in if CHR ''-'' \<in> set part
         then
           bindE (int_or_raise (strip (takeWhile (\<lambda>c. c \<noteq> CHR ''-'') part))) (\<lambda>start_n.
           bindE (int_or_raise (strip (tl (dropWhile (\<lambda>c. c \<noteq> CHR ''-'') part)))) (\<lambda>end_n.
             if start_n > end_n then Inl ValueError
             else parse_loop (pgs \<union> set [start_n..end_n]) rest))
         else
           bindE (int_or_raise part) (\<lambda>n. parse_loop (insert n pgs) rest))"

definition parse_page_range :: "string \<Rightarrow> error + int list" where
  "parse_page_range page_range =
     bindE (parse_loop {} (split_on (CHR '','') page_range)) (\<lambda>pgs.
       Inr (sorted_list_of_set pgs))"


section \<open>Specification vocabulary\<close>

subsection \<open>Overlap of bounding boxes\<close>

text \<open>
  The overlap test in the words of the specification:
  \<^verbatim>\<open>overlap = max(0, min(p.max, t.max) - max(p.min, t.min))\<close> on each axis, for two
  boxes that carry their four coordinates, on the same page.
\<close>

definition overlap_len :: "rat \<Rightarrow> rat \<Rightarrow> rat \<Rightarrow> rat \<Rightarrow> rat" where
  "overlap_len p_lo p_hi t_lo t_hi = max 0 (min p_hi t_hi - max p_lo t_lo)"

definition box_of :: "'a element_scheme \<Rightarrow> (rat \<times> rat \<times> rat \<times> rat) option" where
  "box_of e =
     (case bounding_box e of
        None \<Rightarrow> None
      | Some b \<Rightarrow>
          (case (map_of b ''x_min'', map_of b ''y_min'', map_of b ''x_max'', map_of b ''y_max'') of
             (Some x0, Some y0, Some x1, Some y1) \<Rightarrow> Some (x0, y0, x1, y1)
           | _ \<Rightarrow> None))"

definition overlapping :: "para \<Rightarrow> table \<Rightarrow> bool" where
  "overlapping p t =
     (case (box_of p, box_of t) of
        (Some (px0, py0, px1, py1), Some (tx0, ty0, tx1, ty1)) \<Rightarrow>
          page_number p = page_number t
          \<and> overlap_len px0 px1 tx0 tx1 > 0 \<and> overlap_len py0 py1 ty0 ty1 > 0
      | _ \<Rightarrow> False)"

text \<open>A paragraph is dropped when some table overlaps it.\<close>

definition dropped :: "table list \<Rightarrow> para \<Rightarrow> bool" where
  "dropped ts p = (\<exists>t\<in>set ts. overlapping p t)"

text \<open>A bounding box is missing when the key is absent or the dict is empty.\<close>

definition missing_bbox :: "'a element_scheme \<Rightarrow> bool" where
  "missing_bbox e = (bounding_box e = None \<or> bounding_box e = Some [])"

text \<open>
  The data model gives every bounding box its four coordinates. An input is complete when
  each bounding box of a paragraph or a table is missing or has all four; on such an
  input no subscript of \<^verbatim>\<open>_overlaps_any_table\<close> raises.
\<close>

definition complete_bbox :: "'a element_scheme \<Rightarrow> bool" where
  "complete_bbox e = (missing_bbox e \<or> box_of e \<noteq> None)"

definition complete_input :: "para list \<Rightarrow> table list \<Rightarrow> bool" where
  "complete_input ps ts = ((\<forall>p\<in>set ps. complete_bbox p) \<and> (\<forall>t\<in>set ts. complete_bbox t))"

subsection \<open>Content blocks\<close>

text \<open>
  The content block of an element: its page (1 when absent), its \<^verbatim>\<open>y_min\<close> (0 when
  the bounding box or the coordinate is absent) and its id.
\<close>

definition block_for :: "block_type \<Rightarrow> 'a element_scheme \<Rightarrow> content_block" where
  "block_for ty e =
     \<lparr>block_type = ty,
      page = (case page_number e of None \<Rightarrow> 1 | Some n \<Rightarrow> n),
      y_position =
        (case bounding_box e of
           None \<Rightarrow> 0
         | Some b \<Rightarrow> (case map_of b ''y_min'' of None \<Rightarrow> 0 | Some y \<Rightarrow> y)),
      content_id = elem_id e\<rparr>"

text \<open>The blocks in the order \<^verbatim>\<open>assemble\<close> appends them, before the sort.\<close>

definition appended_blocks :: "para list \<Rightarrow> table list \<Rightarrow> image list \<Rightarrow> content_block list" where
  "appended_blocks fps ts imgs =
     map (block_for Paragraph) fps @ map (block_for Table) ts @ map (block_for Image) imgs"

subsection \<open>HTML escaping of one character\<close>

text \<open>What the escaping does to a single character, in the words of the specification.\<close>

definition escape_char :: "char \<Rightarrow> string" where
  "escape_char c =
     (if c = CHR ''&'' then ''&amp;''
      else if c = CHR ''<'' then ''&lt;''
      else if c = CHR ''>'' then ''&gt;''
      else if c = CHR 0x22 then ''&quot;''
      else if c = CHR 0x27 then ''&#039;''
      else [c])"

subsection \<open>Components of a page range\<close>

text \<open>
  The components of a page-range string are its comma-separated parts, stripped. A
  component with a hyphen is a range, cut at its first hyphen. A component is malformed
  when a number in it is not integer syntax, reversed when it is a range with
  \<^verbatim>\<open>start > end\<close>; otherwise it denotes one page or the pages from start to end.
\<close>

definition is_range :: "string \<Rightarrow> bool" where
  "is_range part = (CHR ''-'' \<in> set part)"

definition range_start :: "string \<Rightarrow> string" where
  "range_start part = strip (takeWhile (\<lambda>c. c \<noteq> CHR ''-'') part)"

definition range_end :: "string \<Rightarrow> string" where
  "range_end part = strip (tl (dropWhile (\<lambda>c. c \<noteq> CHR ''-'') part))"

definition malformed :: "string \<Rightarrow> bool" where
  "malformed part =
     (if is_range part then py_int (range_start part) = None \<or> py_int (range_end part) = None
      else py_int part = None)"

definition reversed :: "string \<Rightarrow> bool" where
  "reversed part =
     (is_range part \<and>
      (case (py_int (range_start part), py_int (range_end part)) of
         (Some a, Some b) \<Rightarrow> a > b
       | _ \<Rightarrow> False))"

definition denoted :: "string \<Rightarrow> int set" where
  "denoted part =
     (if is_range part
      then (case (py_int (range_start part), py_int (range_end part)) of
              (Some a, Some b) \<Rightarrow> {a..b}
            | _ \<Rightarrow> {})
      else (case py_int part of None \<Rightarrow> {} | Some n \<Rightarrow> {n}))"

definition components :: "string \<Rightarrow> string list" where
  "components page_range = map strip (split_on (CHR '','') page_range)"

subsection \<open>The grid of a table\<close>

text \<open>
  The cell at a grid position is the last cell of the list with that row and column
  index. \<open>grid_rows\<close> is the number of rows that the cells reach: one more than the
  largest row index, and 0 without cells. \<open>spec_table_html\<close> is the table in the words
  of the specification, with one row for each index below the table's \<^verbatim>\<open>rows\<close>.
\<close>

definition cell_at :: "cell list \<Rightarrow> nat \<Rightarrow> nat \<Rightarrow> cell option" where
  "cell_at cs r c = find (\<lambda>x. row_index x = r \<and> column_index x = c) (rev cs)"

definition grid_rows :: "cell list \<Rightarrow> nat" where
  "grid_rows cs = foldl (\<lambda>n c. max n (Suc (row_index c))) 0 cs"

definition grid_of :: "int \<Rightarrow> cell list \<Rightarrow> nat \<Rightarrow> cell option list list" where
  "grid_of cols cs n =
     map (\<lambda>r. map (\<lambda>c. cell_at cs r c) [0..<nat cols]) [0..<n]"

definition table_open :: "table \<Rightarrow> string" where
  "table_open t = ''<table border=\"1\" id=\"'' @ elem_id t @ ''\"><tbody>''"

definition rows_html :: "table \<Rightarrow> nat \<Rightarrow> string" where
  "rows_html t n =
     concat (map (\<lambda>r. ''<tr>''
                       @ concat (map (\<lambda>c. render_cell (cell_at (cells t) r c))
                                   [0..<nat (columns t)])
                       @ ''</tr>'') [0..<n])"

definition spec_table_html :: "table \<Rightarrow> string" where
  "spec_table_html t = table_open t @ rows_html t (nat (rows t)) @ ''</tbody></table>''"

section \<open>Example inputs\<close>

text \<open>The shapes of the dicts that the repository's tests build, and the inputs of the
  specification's scenarios.\<close>

definition mk_bbox :: "rat \<Rightarrow> rat \<Rightarrow> rat \<Rightarrow> rat \<Rightarrow> bbox" where
  "mk_bbox x0 y0 x1 y1 = [(''x_min'', x0), (''y_min'', y0), (''x_max'', x1), (''y_max'', y1)]"

definition mk_para :: "string \<Rightarrow> string \<Rightarrow> int \<Rightarrow> bbox \<Rightarrow> para" where
  "mk_para i c pg b =
     \<lparr>elem_id = i, page_number = Some pg, bounding_box = Some b, content = c,
      font = Some \<lparr>font_name = ''Arial'', font_size = Some 12, bold = Some False\<rparr>,
      role = None\<rparr>"

definition mk_table :: "string \<Rightarrow> int \<Rightarrow> bbox \<Rightarrow> table" where
  "mk_table i pg b =
     \<lparr>elem_id = i, page_number = Some pg, bounding_box = Some b, rows = 2, columns = 2,
      cells = []\<rparr>"

definition ex_para_nobox :: para where
  "ex_para_nobox = (mk_para ''para-0'' ''Normal text'' 1 [])\<lparr>bounding_box := None\<rparr>"

definition ex_table_nobox :: table where
  "ex_table_nobox = mk_table ''table-1'' 1 []"

definition ex_table_0 :: table where
  "ex_table_0 = mk_table ''table-0'' 1 (mk_bbox 40 90 300 200)"

definition ex_para_in_table :: para where
  "ex_para_in_table = mk_para ''para-1'' ''Table cell text'' 1 (mk_bbox 50 100 200 120)"

definition ex_para_0 :: para where
  "ex_para_0 = mk_para ''para-0'' ''Normal text'' 1 (mk_bbox 0 0 100 20)"

definition ex_image_0 :: image where
  "ex_image_0 =
     \<lparr>elem_id = ''img-0'', page_number = Some 1, bounding_box = Some (mk_bbox 0 0 0 0),
      mime_type = Some ''image/png'', data = Some ''abc123''\<rparr>"

definition ex_para_p2 :: para where
  "ex_para_p2 = mk_para ''para-0'' ''Page 2 text'' 2 (mk_bbox 0 10 100 30)"

definition ex_para_p1_top :: para where
  "ex_para_p1_top = mk_para ''para-1'' ''Page 1 top'' 1 (mk_bbox 0 10 100 30)"

definition ex_para_p1_bottom :: para where
  "ex_para_p1_bottom = mk_para ''para-2'' ''Page 1 bottom'' 1 (mk_bbox 0 100 100 120)"

definition ex_table_top :: table where
  "ex_table_top = mk_table ''table-0'' 1 (mk_bbox 200 10 300 90)"

definition ex_image_nobox :: image where
  "ex_image_nobox =
     \<lparr>elem_id = ''img-0'', page_number = None, bounding_box = None,
      mime_type = Some ''image/png'', data = Some ''abc123''\<rparr>"

definition ex_three_paras :: "para list" where
  "ex_three_paras = [ex_para_p2, ex_para_p1_top, ex_para_p1_bottom]"

definition ex_para_escape :: para where
  "ex_para_escape = mk_para ''para-0'' ''a < b & c > d'' 1 (mk_bbox 0 0 100 20)"

definition ex_doc_escape :: document where
  "ex_doc_escape =
     \<lparr>model_used = ''pymupdf'', pages = 1, paragraphs = [ex_para_escape], tables = [],
      images = [], full_text = ''a < b & c > d'',
      content_blocks = [block_for Paragraph ex_para_escape]\<rparr>"

definition mk_cell :: "nat \<Rightarrow> nat \<Rightarrow> string \<Rightarrow> cell_kind \<Rightarrow> cell" where
  "mk_cell r c s k =
     \<lparr>row_index = r, column_index = c, row_span = Some 1, column_span = Some 1,
      cell_content = s, kind = Some k\<rparr>"

definition ex_table_names :: table where
  "ex_table_names =
     \<lparr>elem_id = ''table-0'', page_number = Some 1, bounding_box = None, rows = 2, columns = 2,
      cells = [mk_cell 0 0 ''Name'' ColumnHeader, mk_cell 0 1 ''Age'' ColumnHeader,
               mk_cell 1 0 ''Alice'' Content, mk_cell 1 1 ''30'' Content]\<rparr>"

definition ex_wide_cell :: cell where
  "ex_wide_cell = (mk_cell 0 0 ''a<b'' Content)\<lparr>column_span := Some 2, row_span := Some 3\<rparr>"

subsection \<open>The weighted distribution of font sizes and the rule list\<close>

text \<open>
  The multiset of the specification: every paragraph contributes
  \<^verbatim>\<open>min(len(content), 200)\<close> copies of its font size rounded to one decimal.
  \<open>first_match\<close> is the result of the first rule of a priority list whose condition holds,
  and \<open>None\<close> when no condition holds. The paragraphs after them are example inputs.
\<close>

definition size_weights :: "para list \<Rightarrow> rat multiset" where
  "size_weights ps =
     (\<Sum>p\<leftarrow>ps. replicate_mset (min (length (content p)) 200) (py_round1 (get_font_size p)))"

definition first_match :: "(bool \<times> 'a) list \<Rightarrow> 'a option" where
  "first_match rules = map_option snd (find fst rules)"

definition mk_sized :: "string \<Rightarrow> string \<Rightarrow> rat \<Rightarrow> bool option \<Rightarrow> para" where
  "mk_sized i c s b =
     \<lparr>elem_id = i, page_number = Some 1, bounding_box = Some (mk_bbox 0 0 100 20),
      content = c, font = Some \<lparr>font_name = ''Arial'', font_size = Some s, bold = b\<rparr>,
      role = None\<rparr>"

definition ex_title_para :: para where
  "ex_title_para = mk_sized ''para-0'' ''Title'' 24 (Some True)"

definition ex_body_para :: para where
  "ex_body_para = mk_sized ''para-1'' (concat (replicate 50 ''Body '')) 12 None"

definition ex_bold_162 :: para where
  "ex_bold_162 = mk_sized ''para-0'' ''Heading'' (81 / 5) (Some True)"

definition ex_body_108 :: para where
  "ex_body_108 = mk_sized ''para-1'' (concat (replicate 50 ''Body '')) (54 / 5) (Some False)"

definition ex_bold_135 :: para where
  "ex_bold_135 = mk_sized ''para-0'' ''Bold Heading'' (27 / 2) (Some True)"

definition ex_plain_135 :: para where
  "ex_plain_135 = mk_sized ''para-2'' ''Plain'' (27 / 2) (Some False)"

definition ex_plain_16 :: para where
  "ex_plain_16 = mk_sized ''para-3'' ''Section Heading'' 16 (Some False)"

definition ex_bold_17 :: para where
  "ex_bold_17 = mk_sized ''para-0'' ''Big Bold Text'' 17 (Some True)"

definition ex_body_11 :: para where
  "ex_body_11 = mk_sized ''para-1'' (concat (replicate 50 ''Body '')) 11 (Some False)"

definition ex_size_1196 :: para where
  "ex_size_1196 = mk_sized ''para-0'' ''abc'' (299 / 25) None"

definition ex_size_1204 :: para where
  "ex_size_1204 = mk_sized ''para-1'' ''abc'' (301 / 25) None"

definition ex_size_11 :: para where
  "ex_size_11 = mk_sized ''para-2'' ''abcd'' 11 None"

definition ex_empty_para :: para where
  "ex_empty_para = mk_sized ''para-0'' [] 30 None"


section \<open>Properties of result_assembler.py\<close>

subsection \<open>The overlap filter returns the paragraphs that no table overlaps\<close>

lemma bindE_Inr_iff: "bindE m f = Inr r \<longleftrightarrow> (\<exists>v. m = Inr v \<and> f v = Inr r)"
  by (cases m) (auto simp: bindE_def)

lemma getitem_Inr_iff: "getitem d k = Inr v \<longleftrightarrow> map_of d k = Some v"
  by (auto simp: getitem_def split: option.splits)

lemma overlap_1d_Inr_iff:
  "overlap_1d pb tb lo hi = Inr v \<longleftrightarrow>
     (\<exists>p_lo p_hi t_lo t_hi. map_of pb lo = Some p_lo \<and> map_of pb hi = Some p_hi
        \<and> map_of tb lo = Some t_lo \<and> map_of tb hi = Some t_hi
        \<and> v = overlap_len p_lo p_hi t_lo t_hi)"
  by (auto simp: overlap_1d_def bindE_Inr_iff getitem_Inr_iff overlap_len_def)

lemma overlapping_no_box: "box_of t = None \<Longrightarrow> \<not> overlapping p t"
  by (simp add: overlapping_def split: option.splits prod.splits)

lemma box_of_missing: "missing_bbox e \<Longrightarrow> box_of e = None"
  by (auto simp: missing_bbox_def box_of_def)

lemma tables_loop_Inr:
  "tables_loop p pb ts = Inr b \<Longrightarrow> bounding_box p = Some pb \<Longrightarrow>
     b = (\<exists>t\<in>set ts. overlapping p t)"
proof (induction ts)
  case Nil
  then show ?case by simp
next
  case (Cons t ts)
  show ?case
  proof (cases "missing_bbox t \<or> page_number p \<noteq> page_number t")
    case True
    then have skip: "tables_loop p pb (t # ts) = tables_loop p pb ts"
      by (auto simp: missing_bbox_def split: option.splits)
    from True have "\<not> overlapping p t"
      by (auto simp: overlapping_no_box box_of_missing overlapping_def split: option.splits prod.splits)
    with Cons skip show ?thesis by simp
  next
    case False
    then obtain tb where tb: "bounding_box t = Some tb" "tb \<noteq> []"
      and pg: "page_number p = page_number t"
      by (auto simp: missing_bbox_def)
    from Cons.prems(1) tb pg obtain ox oy where
      ox: "overlap_1d pb tb ''x_min'' ''x_max'' = Inr ox" and
      oy: "overlap_1d pb tb ''y_min'' ''y_max'' = Inr oy" and
      rest: "(if ox > 0 \<and> oy > 0 then Inr True else tables_loop p pb ts) = Inr b"
      by (auto simp: bindE_Inr_iff)
    from ox oy have ov: "overlapping p t \<longleftrightarrow> ox > 0 \<and> oy > 0"
      using Cons.prems(2) tb pg
      by (auto simp: overlap_1d_Inr_iff overlapping_def box_of_def)
    show ?thesis
    proof (cases "ox > 0 \<and> oy > 0")
      case True
      with rest ov show ?thesis by auto
    next
      case False
      with rest have "tables_loop p pb ts = Inr b" by simp
      with Cons.IH Cons.prems(2) have "b = (\<exists>t\<in>set ts. overlapping p t)" by simp
      with False ov show ?thesis by auto
    qed
  qed
qed

lemma overlaps_any_table_Inr:
  "overlaps_any_table p ts = Inr b \<Longrightarrow> b = (\<exists>t\<in>set ts. overlapping p t)"
proof (cases "missing_bbox p")
  case True
  assume "overlaps_any_table p ts = Inr b"
  with True have "\<not> b" by (auto simp: overlaps_any_table_def missing_bbox_def)
  moreover from True have "\<not> overlapping p t" for t
    by (simp add: overlapping_def box_of_missing)
  ultimately show ?thesis by simp
next
  case False
  assume a: "overlaps_any_table p ts = Inr b"
  from False obtain pb where pb: "bounding_box p = Some pb" "pb \<noteq> []"
    by (auto simp: missing_bbox_def)
  with a have "tables_loop p pb ts = Inr b" by (simp add: overlaps_any_table_def)
  with pb show ?thesis by (simp add: tables_loop_Inr)
qed

lemma filter_loop_Inr:
  "filter_loop acc ps ts = Inr r \<Longrightarrow>
     r = acc @ filter (\<lambda>p. \<not> (\<exists>t\<in>set ts. overlapping p t)) ps"
proof (induction ps arbitrary: acc)
  case Nil
  then show ?case by simp
next
  case (Cons p ps)
  from Cons.prems obtain b where b: "overlaps_any_table p ts = Inr b"
    and r: "filter_loop (if \<not> b then acc @ [p] else acc) ps ts = Inr r"
    by (auto simp: bindE_Inr_iff)
  from b have "b = (\<exists>t\<in>set ts. overlapping p t)" by (rule overlaps_any_table_Inr)
  with Cons.IH[OF r] show ?case by auto
qed

lemma filter_table_overlaps_Inr:
  "filter_table_overlaps ps ts = Inr r \<Longrightarrow>
     r = filter (\<lambda>p. \<not> (\<exists>t\<in>set ts. overlapping p t)) ps"
  by (auto simp: filter_table_overlaps_def dest: filter_loop_Inr split: if_splits)

lemma overlap_1d_complete:
  "map_of pb lo \<noteq> None \<Longrightarrow> map_of pb hi \<noteq> None \<Longrightarrow> map_of tb lo \<noteq> None \<Longrightarrow>
   map_of tb hi \<noteq> None \<Longrightarrow> \<exists>v. overlap_1d pb tb lo hi = Inr v"
  by (auto simp: overlap_1d_def bindE_def getitem_def)

lemma box_of_Some_keys:
  "box_of e = Some q \<Longrightarrow> bounding_box e = Some b \<Longrightarrow>
     map_of b ''x_min'' \<noteq> None \<and> map_of b ''y_min'' \<noteq> None \<and>
     map_of b ''x_max'' \<noteq> None \<and> map_of b ''y_max'' \<noteq> None"
  by (auto simp: box_of_def split: option.splits)

lemma tables_loop_returns:
  "bounding_box p = Some pb \<Longrightarrow> box_of p \<noteq> None \<Longrightarrow> \<forall>t\<in>set ts. complete_bbox t \<Longrightarrow>
     \<exists>b. tables_loop p pb ts = Inr b"
proof (induction ts)
  case Nil
  show ?case by (rule exI[of _ False]) simp
next
  case (Cons t ts)
  from Cons.prems(3) have "\<forall>t\<in>set ts. complete_bbox t" by simp
  from Cons.IH[OF Cons.prems(1,2) this]
  obtain b where b: "tables_loop p pb ts = Inr b" by blast
  show ?case
  proof (cases "missing_bbox t \<or> page_number p \<noteq> page_number t")
    case True
    then have "tables_loop p pb (t # ts) = tables_loop p pb ts"
      by (auto simp: missing_bbox_def split: option.splits)
    with b show ?thesis by simp
  next
    case False
    then obtain tb where tb: "bounding_box t = Some tb" "tb \<noteq> []"
      and pg: "page_number p = page_number t"
      by (auto simp: missing_bbox_def)
    from False Cons.prems(3) have "box_of t \<noteq> None" by (simp add: complete_bbox_def)
    with tb have kt: "map_of tb ''x_min'' \<noteq> None" "map_of tb ''y_min'' \<noteq> None"
      "map_of tb ''x_max'' \<noteq> None" "map_of tb ''y_max'' \<noteq> None"
      using box_of_Some_keys[of t _ tb] by auto
    from Cons.prems(1,2) have kp: "map_of pb ''x_min'' \<noteq> None" "map_of pb ''y_min'' \<noteq> None"
      "map_of pb ''x_max'' \<noteq> None" "map_of pb ''y_max'' \<noteq> None"
      using box_of_Some_keys[of p _ pb] by auto
    from kp kt obtain ox oy where
      "overlap_1d pb tb ''x_min'' ''x_max'' = Inr ox"
      "overlap_1d pb tb ''y_min'' ''y_max'' = Inr oy"
      using overlap_1d_complete[of pb "''x_min''" "''x_max''" tb]
        overlap_1d_complete[of pb "''y_min''" "''y_max''" tb] by auto
    with tb pg b show ?thesis by (auto simp: bindE_def)
  qed
qed

lemma overlaps_any_table_returns:
  "complete_bbox p \<Longrightarrow> \<forall>t\<in>set ts. complete_bbox t \<Longrightarrow> \<exists>b. overlaps_any_table p ts = Inr b"
proof (cases "missing_bbox p")
  case True
  then show ?thesis by (auto simp: overlaps_any_table_def missing_bbox_def)
next
  case False
  assume c: "complete_bbox p" "\<forall>t\<in>set ts. complete_bbox t"
  from False obtain pb where pb: "bounding_box p = Some pb" "pb \<noteq> []"
    by (auto simp: missing_bbox_def)
  from False c have "box_of p \<noteq> None" by (simp add: complete_bbox_def)
  with pb c tables_loop_returns[of p pb ts] show ?thesis
    by (simp add: overlaps_any_table_def)
qed

lemma filter_loop_returns:
  "\<forall>p\<in>set ps. complete_bbox p \<Longrightarrow> \<forall>t\<in>set ts. complete_bbox t \<Longrightarrow>
     \<exists>r. filter_loop acc ps ts = Inr r"
proof (induction ps arbitrary: acc)
  case Nil
  then show ?case by simp
next
  case (Cons p ps)
  then obtain b where "overlaps_any_table p ts = Inr b"
    using overlaps_any_table_returns[of p ts] by auto
  with Cons show ?case by (simp add: bindE_def)
qed

lemma filter_table_overlaps_returns:
  "complete_input ps ts \<Longrightarrow> \<exists>r. filter_table_overlaps ps ts = Inr r"
  by (simp add: filter_table_overlaps_def complete_input_def filter_loop_returns)

lemma filter_table_overlaps_complete:
  "complete_input ps ts \<Longrightarrow>
     filter_table_overlaps ps ts = Inr (filter (\<lambda>p. \<not> (\<exists>t\<in>set ts. overlapping p t)) ps)"
  using filter_table_overlaps_returns[of ps ts] filter_table_overlaps_Inr[of ps ts] by auto

lemma foldl_append_block:
  "foldl (append_block ty) acc es = acc @ map (block_for ty) es"
  by (induction es arbitrary: acc)
     (auto simp: append_block_def block_for_def page_of_def y_min_of_def get_default_def
           split: option.splits)

lemma assemble_Inr:
  "assemble ps ts imgs n = Inr d \<longleftrightarrow>
     (\<exists>fps. filter_table_overlaps ps ts = Inr fps \<and>
        d = \<lparr>model_used = ''pymupdf'', pages = n, paragraphs = fps, tables = ts, images = imgs,
             full_text = join [CHR 0x0A] (map content fps),
             content_blocks = sort_key block_key
               (map (block_for Paragraph) fps @ map (block_for Table) ts
                @ map (block_for Image) imgs)\<rparr>)"
  by (auto simp: assemble_def bindE_Inr_iff Let_def foldl_append_block)

lemma assemble_returns: "complete_input ps ts \<Longrightarrow> \<exists>d. assemble ps ts imgs n = Inr d"
  using filter_table_overlaps_returns[of ps ts] by (auto simp: assemble_Inr)

lemma tables_loop_skip_missing:
  "tables_loop p pb (filter (\<lambda>t. \<not> missing_bbox t) ts) = tables_loop p pb ts"
  by (induction ts) (auto simp: missing_bbox_def split: option.splits cong: if_cong)

lemma overlaps_any_table_skip_missing:
  "overlaps_any_table p (filter (\<lambda>t. \<not> missing_bbox t) ts) = overlaps_any_table p ts"
  by (simp add: overlaps_any_table_def tables_loop_skip_missing split: option.splits)

lemma filter_loop_skip_missing:
  "filter_loop acc ps (filter (\<lambda>t. \<not> missing_bbox t) ts) = filter_loop acc ps ts"
  by (induction ps arbitrary: acc) (simp_all add: overlaps_any_table_skip_missing)

lemma overlaps_any_table_Nil: "overlaps_any_table p [] = Inr False"
  by (simp add: overlaps_any_table_def split: option.splits)

lemma filter_loop_Nil: "filter_loop acc ps [] = Inr (acc @ ps)"
  by (induction ps arbitrary: acc) (simp_all add: overlaps_any_table_Nil bindE_def)

lemma filter_table_overlaps_skip_missing:
  "filter_table_overlaps ps (filter (\<lambda>t. \<not> missing_bbox t) ts) = filter_table_overlaps ps ts"
proof (cases "filter (\<lambda>t. \<not> missing_bbox t) ts = []")
  case True
  have "filter_loop [] ps ts = filter_loop [] ps (filter (\<lambda>t. \<not> missing_bbox t) ts)"
    by (simp add: filter_loop_skip_missing)
  also have "\<dots> = Inr ps" using True by (simp add: filter_loop_Nil)
  finally show ?thesis using True by (simp add: filter_table_overlaps_def)
next
  case False
  then have "ts \<noteq> []" by auto
  with False show ?thesis by (simp add: filter_table_overlaps_def filter_loop_skip_missing)
qed

lemma overlaps_any_table_missing: "missing_bbox p \<Longrightarrow> overlaps_any_table p ts = Inr False"
  by (auto simp: overlaps_any_table_def missing_bbox_def)

lemma not_overlapping_missing: "missing_bbox p \<Longrightarrow> \<not> overlapping p t"
  by (simp add: overlapping_def box_of_missing)

lemma assemble_Inr_dropped:
  assumes "assemble ps ts imgs n = Inr d"
  shows "paragraphs d = filter (\<lambda>p. \<not> dropped ts p) ps"
    and "tables d = ts" and "images d = imgs" and "pages d = n"
    and "full_text d = join [CHR 0x0A] (map content (paragraphs d))"
    and "content_blocks d = sort_key block_key (appended_blocks (paragraphs d) ts imgs)"
proof -
  from assms obtain fps where f: "filter_table_overlaps ps ts = Inr fps"
    and d: "d = \<lparr>model_used = ''pymupdf'', pages = n, paragraphs = fps, tables = ts, images = imgs,
             full_text = join [CHR 0x0A] (map content fps),
             content_blocks = sort_key block_key
               (map (block_for Paragraph) fps @ map (block_for Table) ts
                @ map (block_for Image) imgs)\<rparr>"
    unfolding assemble_Inr by blast
  from f have "fps = filter (\<lambda>p. \<not> dropped ts p) ps"
    unfolding dropped_def by (rule filter_table_overlaps_Inr)
  with d show "paragraphs d = filter (\<lambda>p. \<not> dropped ts p) ps" by simp
  from d show "tables d = ts" "images d = imgs" "pages d = n"
    "full_text d = join [CHR 0x0A] (map content (paragraphs d))"
    "content_blocks d = sort_key block_key (appended_blocks (paragraphs d) ts imgs)"
    by (simp_all add: appended_blocks_def)
qed


subsection \<open>The content blocks are the sorted list of one block per element\<close>

lemma mset_appended_blocks:
  "mset (appended_blocks fps ts imgs) =
     image_mset (block_for Paragraph) (mset fps) + image_mset (block_for Table) (mset ts)
     + image_mset (block_for Image) (mset imgs)"
  by (simp add: appended_blocks_def)

lemma distinct_block_for:
  "distinct (map elem_id es) \<Longrightarrow> distinct (map (block_for ty) es)"
  by (auto simp: distinct_map inj_on_def block_for_def)

lemma block_type_block_for: "block_type (block_for ty e) = ty"
  by (simp add: block_for_def)

lemma distinct_appended_blocks:
  assumes "distinct (map elem_id fps)" "distinct (map elem_id ts)" "distinct (map elem_id imgs)"
  shows "distinct (appended_blocks fps ts imgs)"
proof -
  have "block_for Paragraph p \<noteq> block_for Table t" "block_for Paragraph p \<noteq> block_for Image i"
    "block_for Table t \<noteq> block_for Image i"
    for p :: para and t :: table and i :: image
    using block_type_block_for[of Paragraph p] block_type_block_for[of Table t]
      block_type_block_for[of Image i]
    by (metis block_type.distinct)+
  with assms show ?thesis
    by (auto simp: appended_blocks_def distinct_block_for)
qed

lemma sorted_block_keys:
  assumes "sorted (map block_key bs)" "i < j" "j < length bs"
  shows "page (bs ! i) < page (bs ! j)
         \<or> (page (bs ! i) = page (bs ! j) \<and> y_position (bs ! i) \<le> y_position (bs ! j))"
proof -
  from assms have "block_key (bs ! i) \<le> block_key (bs ! j)"
    using sorted_nth_mono[of "map block_key bs" i j] by simp
  then show ?thesis by (auto simp: block_key_def less_eq_prod_def)
qed

lemma length_appended_blocks:
  "length (appended_blocks fps ts imgs) = length fps + length ts + length imgs"
  by (simp add: appended_blocks_def)

lemma y_position_block_for:
  "y_position (block_for ty e) =
     (case bounding_box e of
        None \<Rightarrow> 0
      | Some b \<Rightarrow> (case map_of b ''y_min'' of None \<Rightarrow> 0 | Some y \<Rightarrow> y))"
  by (simp add: block_for_def)

lemma ex_three_complete: "complete_input ex_three_paras [ex_table_top]"
  by code_simp

lemma ex_three_retained:
  "filter (\<lambda>p. \<not> dropped [ex_table_top] p) ex_three_paras = ex_three_paras"
  by code_simp

lemma ex_three_ids:
  "map_sum id (\<lambda>d. map content_id (content_blocks d))
     (assemble ex_three_paras [ex_table_top] [] 2)
   = Inr [''para-1'', ''table-0'', ''para-2'', ''para-0'']"
  by code_simp

lemma ex_tie_blocks:
  "filter (\<lambda>b. page b = 1 \<and> y_position b = 10)
          (map (block_for Paragraph) ex_three_paras @ map (block_for Table) [ex_table_top]
           @ map (block_for Image) ([]::image list))
   = [block_for Paragraph ex_para_p1_top, block_for Table ex_table_top]"
  by code_simp

lemma ex_three_text:
  "join [CHR 0x0A] (map content ex_three_paras)
   = ''Page 2 text'' @ [CHR 0x0A] @ ''Page 1 top'' @ [CHR 0x0A] @ ''Page 1 bottom''"
  by code_simp


subsection \<open>Claims on the overlap filter\<close>

text \<open>
  Claim C5. Whenever the overlap filter returns, and it returns on every complete input,
  its result is the paragraph list without the paragraphs for which some table with the
  same \<^verbatim>\<open>page_number\<close> has \<^verbatim>\<open>overlap_x > 0\<close> and \<^verbatim>\<open>overlap_y > 0\<close>; the retained
  paragraphs keep their order, and the assembled document keeps every table and every
  image. A paragraph with the box (0, 0, 100, 20) on page 1 is dropped by a table with the
  box (40, 10, 300, 200) on page 1 and retained when that table is on page 2.
\<close>

theorem filter_table_overlaps_drops_overlapping:
  "(complete_input ps ts \<longrightarrow> (\<exists>fps. filter_table_overlaps ps ts = Inr fps))
   \<and> (\<forall>fps. filter_table_overlaps ps ts = Inr fps \<longrightarrow>
          fps = filter (\<lambda>p. \<not> (\<exists>t\<in>set ts. overlapping p t)) ps)
   \<and> (\<forall>d. assemble ps ts imgs n = Inr d \<longrightarrow> tables d = ts \<and> images d = imgs)
   \<and> filter_table_overlaps
        [p\<lparr>page_number := Some 1, bounding_box := Some (mk_bbox 0 0 100 20)\<rparr>]
        [t\<lparr>page_number := Some 1, bounding_box := Some (mk_bbox 40 10 300 200)\<rparr>] = Inr []
   \<and> filter_table_overlaps
        [p\<lparr>page_number := Some 1, bounding_box := Some (mk_bbox 0 0 100 20)\<rparr>]
        [t\<lparr>page_number := Some 2, bounding_box := Some (mk_bbox 40 10 300 200)\<rparr>]
      = Inr [p\<lparr>page_number := Some 1, bounding_box := Some (mk_bbox 0 0 100 20)\<rparr>]"
proof (intro conjI allI impI)
  show "\<exists>fps. filter_table_overlaps ps ts = Inr fps" if "complete_input ps ts"
    using that by (rule filter_table_overlaps_returns)
  show "fps = filter (\<lambda>p. \<not> (\<exists>t\<in>set ts. overlapping p t)) ps"
    if "filter_table_overlaps ps ts = Inr fps" for fps
    using that by (rule filter_table_overlaps_Inr)
  show "tables d = ts" "images d = imgs" if "assemble ps ts imgs n = Inr d" for d
    using assemble_Inr_dropped(2,3)[OF that] by simp_all
  show "filter_table_overlaps
        [p\<lparr>page_number := Some 1, bounding_box := Some (mk_bbox 0 0 100 20)\<rparr>]
        [t\<lparr>page_number := Some 1, bounding_box := Some (mk_bbox 40 10 300 200)\<rparr>] = Inr []"
    by (simp add: filter_table_overlaps_def overlaps_any_table_def mk_bbox_def
        overlap_1d_def bindE_def getitem_def)
  show "filter_table_overlaps
        [p\<lparr>page_number := Some 1, bounding_box := Some (mk_bbox 0 0 100 20)\<rparr>]
        [t\<lparr>page_number := Some 2, bounding_box := Some (mk_bbox 40 10 300 200)\<rparr>]
      = Inr [p\<lparr>page_number := Some 1, bounding_box := Some (mk_bbox 0 0 100 20)\<rparr>]"
    by (simp add: filter_table_overlaps_def overlaps_any_table_def mk_bbox_def bindE_def)
qed

theorem filter_table_overlaps_drops_overlapping_witness:
  "complete_input [ex_para_0, ex_para_in_table] [ex_table_0]
   \<and> filter_table_overlaps [ex_para_0, ex_para_in_table] [ex_table_0] = Inr [ex_para_0]
   \<and> [ex_para_0] = filter (\<lambda>p. \<not> (\<exists>t\<in>set [ex_table_0]. overlapping p t))
                      [ex_para_0, ex_para_in_table]
   \<and> overlapping ex_para_in_table ex_table_0 \<and> \<not> overlapping ex_para_0 ex_table_0
   \<and> (\<exists>d. assemble [ex_para_0, ex_para_in_table] [ex_table_0] [ex_image_0] 1 = Inr d
          \<and> tables d = [ex_table_0] \<and> images d = [ex_image_0])"
proof -
  have c: "complete_input [ex_para_0, ex_para_in_table] [ex_table_0]"
    by code_simp
  have f: "filter_table_overlaps [ex_para_0, ex_para_in_table] [ex_table_0] = Inr [ex_para_0]"
    by code_simp
  have o: "overlapping ex_para_in_table ex_table_0" "\<not> overlapping ex_para_0 ex_table_0"
    by code_simp+
  note main = filter_table_overlaps_drops_overlapping
    [of "[ex_para_0, ex_para_in_table]" "[ex_table_0]" "[ex_image_0]" 1]
  from main f have e: "[ex_para_0] = filter (\<lambda>p. \<not> (\<exists>t\<in>set [ex_table_0]. overlapping p t))
                      [ex_para_0, ex_para_in_table]" by blast
  from assemble_returns[OF c] obtain d
    where d: "assemble [ex_para_0, ex_para_in_table] [ex_table_0] [ex_image_0] 1 = Inr d"
    by blast
  with main have "tables d = [ex_table_0] \<and> images d = [ex_image_0]" by blast
  with c f e o d show ?thesis by blast
qed

text \<open>
  Claim C10. A paragraph whose bounding box is missing (absent or empty) is never found to
  overlap and is retained by the filter; the tables whose bounding box is missing can be
  left out of the table list without changing the filter's result, and when every table
  lacks its box, or there is no table, the filter returns the paragraph list unchanged.
\<close>

theorem missing_bbox_never_filters:
  "(missing_bbox p \<longrightarrow> overlaps_any_table p ts = Inr False)
   \<and> (\<forall>fps. filter_table_overlaps ps ts = Inr fps \<longrightarrow>
          filter missing_bbox fps = filter missing_bbox ps)
   \<and> filter_table_overlaps ps ts = filter_table_overlaps ps (filter (\<lambda>t. \<not> missing_bbox t) ts)
   \<and> ((\<forall>t\<in>set ts. missing_bbox t) \<longrightarrow> filter_table_overlaps ps ts = Inr ps)
   \<and> filter_table_overlaps ps [] = Inr ps"
proof (intro conjI allI impI)
  show "overlaps_any_table p ts = Inr False" if "missing_bbox p"
    using that by (rule overlaps_any_table_missing)
  show "filter missing_bbox fps = filter missing_bbox ps"
    if "filter_table_overlaps ps ts = Inr fps" for fps
  proof -
    from that have "fps = filter (\<lambda>p. \<not> (\<exists>t\<in>set ts. overlapping p t)) ps"
      by (rule filter_table_overlaps_Inr)
    then show ?thesis
      by (auto simp: not_overlapping_missing intro: filter_cong)
  qed
  show sk: "filter_table_overlaps ps ts
      = filter_table_overlaps ps (filter (\<lambda>t. \<not> missing_bbox t) ts)"
    by (simp add: filter_table_overlaps_skip_missing)
  show "filter_table_overlaps ps ts = Inr ps" if "\<forall>t\<in>set ts. missing_bbox t"
  proof -
    from that have "filter (\<lambda>t. \<not> missing_bbox t) ts = []" by (simp add: filter_empty_conv)
    with sk show ?thesis by (simp add: filter_table_overlaps_def)
  qed
  show "filter_table_overlaps ps [] = Inr ps" by (simp add: filter_table_overlaps_def)
qed

theorem missing_bbox_never_filters_witness:
  "missing_bbox ex_para_nobox
   \<and> overlaps_any_table ex_para_nobox [ex_table_0] = Inr False
   \<and> filter_table_overlaps [ex_para_nobox, ex_para_in_table] [ex_table_0] = Inr [ex_para_nobox]
   \<and> filter missing_bbox [ex_para_nobox] = filter missing_bbox [ex_para_nobox, ex_para_in_table]
   \<and> filter_table_overlaps [ex_para_in_table] [ex_table_nobox, ex_table_0]
       = filter_table_overlaps [ex_para_in_table] [ex_table_0]
   \<and> missing_bbox ex_table_nobox
   \<and> filter_table_overlaps [ex_para_in_table] [ex_table_nobox] = Inr [ex_para_in_table]"
proof -
  have m: "missing_bbox ex_para_nobox"
    by (simp add: missing_bbox_def ex_para_nobox_def mk_para_def)
  have mt: "missing_bbox ex_table_nobox"
    by (simp add: missing_bbox_def ex_table_nobox_def mk_table_def)
  have f: "filter_table_overlaps [ex_para_nobox, ex_para_in_table] [ex_table_0] = Inr [ex_para_nobox]"
    by code_simp
  have t: "filter (\<lambda>t. \<not> missing_bbox t) [ex_table_nobox, ex_table_0] = [ex_table_0]"
    by code_simp
  note main = missing_bbox_never_filters
  from main[of ex_para_nobox "[ex_table_0]" "[ex_para_nobox, ex_para_in_table]"] m f
  have a: "overlaps_any_table ex_para_nobox [ex_table_0] = Inr False"
    "filter missing_bbox [ex_para_nobox] = filter missing_bbox [ex_para_nobox, ex_para_in_table]"
    by blast+
  from main[of ex_para_nobox "[ex_table_nobox, ex_table_0]" "[ex_para_in_table]"] t
  have b: "filter_table_overlaps [ex_para_in_table] [ex_table_nobox, ex_table_0]
       = filter_table_overlaps [ex_para_in_table] [ex_table_0]" by simp
  from main[of ex_para_nobox "[ex_table_nobox]" "[ex_para_in_table]"] mt
  have c: "filter_table_overlaps [ex_para_in_table] [ex_table_nobox] = Inr [ex_para_in_table]"
    by simp
  from m mt f a b c show ?thesis by blast
qed


subsection \<open>Claims on the assembled document\<close>

text \<open>
  Claim C1. Whenever \<^verbatim>\<open>assemble\<close> returns a document, and it returns on every complete
  input, the content blocks are, as a multiset, one block for each paragraph that the overlap
  filter retains, one for each table and one for each image: nothing is left out and nothing
  is added, and with distinct ids no block occurs twice. The \<^verbatim>\<open>y_position\<close> of a block
  is the \<^verbatim>\<open>y_min\<close> of the element's bounding box, and 0 when the bounding box or its
  \<^verbatim>\<open>y_min\<close> is absent.
\<close>

theorem assemble_one_block_per_element:
  "(complete_input ps ts \<longrightarrow> (\<exists>d. assemble ps ts imgs n = Inr d))
   \<and> (\<forall>d. assemble ps ts imgs n = Inr d \<longrightarrow>
          paragraphs d = filter (\<lambda>p. \<not> dropped ts p) ps
          \<and> mset (content_blocks d) =
              image_mset (block_for Paragraph) (mset (paragraphs d))
              + image_mset (block_for Table) (mset ts)
              + image_mset (block_for Image) (mset imgs)
          \<and> length (content_blocks d) = length (paragraphs d) + length ts + length imgs
          \<and> (distinct (map elem_id ps) \<and> distinct (map elem_id ts) \<and> distinct (map elem_id imgs)
               \<longrightarrow> distinct (content_blocks d)))
   \<and> y_position (block_for ty e) =
        (case bounding_box e of
           None \<Rightarrow> 0
         | Some b \<Rightarrow> (case map_of b ''y_min'' of None \<Rightarrow> 0 | Some y \<Rightarrow> y))
   \<and> content_id (block_for ty e) = elem_id e \<and> block_type (block_for ty e) = ty"
proof (intro conjI allI impI)
  show "\<exists>d. assemble ps ts imgs n = Inr d" if "complete_input ps ts"
    using that by (rule assemble_returns)
  show "y_position (block_for ty e) =
        (case bounding_box e of
           None \<Rightarrow> 0
         | Some b \<Rightarrow> (case map_of b ''y_min'' of None \<Rightarrow> 0 | Some y \<Rightarrow> y))"
    by (rule y_position_block_for)
  show "content_id (block_for ty e) = elem_id e" "block_type (block_for ty e) = ty"
    by (simp_all add: block_for_def)
next
  fix d assume a: "assemble ps ts imgs n = Inr d"
  note facts = assemble_Inr_dropped[OF a]
  show p: "paragraphs d = filter (\<lambda>p. \<not> dropped ts p) ps" by (rule facts(1))
  show "mset (content_blocks d) =
              image_mset (block_for Paragraph) (mset (paragraphs d))
              + image_mset (block_for Table) (mset ts)
              + image_mset (block_for Image) (mset imgs)"
    by (simp add: facts(6) mset_appended_blocks)
  show "length (content_blocks d) = length (paragraphs d) + length ts + length imgs"
    by (simp add: facts(6) length_appended_blocks)
  show "distinct (content_blocks d)"
    if "distinct (map elem_id ps) \<and> distinct (map elem_id ts) \<and> distinct (map elem_id imgs)"
  proof -
    from that have "distinct (map elem_id (paragraphs d))"
      by (simp add: p distinct_map_filter)
    with that have "distinct (appended_blocks (paragraphs d) ts imgs)"
      by (simp add: distinct_appended_blocks)
    then show ?thesis by (simp add: facts(6))
  qed
qed

theorem assemble_one_block_per_element_witness:
  "complete_input [ex_para_0, ex_para_in_table] [ex_table_0]
   \<and> distinct (map elem_id [ex_para_0, ex_para_in_table])
   \<and> (\<exists>d. assemble [ex_para_0, ex_para_in_table] [ex_table_0] [ex_image_nobox] 1 = Inr d
          \<and> paragraphs d = [ex_para_0]
          \<and> mset (content_blocks d) =
              {#block_for Paragraph ex_para_0, block_for Table ex_table_0,
                block_for Image ex_image_nobox#}
          \<and> length (content_blocks d) = 3
          \<and> distinct (content_blocks d))
   \<and> y_position (block_for Table ex_table_0) = 90
   \<and> y_position (block_for Image ex_image_nobox) = 0"
proof -
  let ?ps = "[ex_para_0, ex_para_in_table]"
  have c: "complete_input ?ps [ex_table_0]" by code_simp
  have i: "distinct (map elem_id ?ps)" "distinct (map elem_id [ex_table_0])"
    "distinct (map elem_id [ex_image_nobox])"
    by code_simp+
  have f: "filter (\<lambda>p. \<not> dropped [ex_table_0] p) ?ps = [ex_para_0]" by code_simp
  note main = assemble_one_block_per_element[of ?ps "[ex_table_0]" "[ex_image_nobox]" 1]
  from main c obtain d where d: "assemble ?ps [ex_table_0] [ex_image_nobox] 1 = Inr d"
    by blast
  from main d have p: "paragraphs d = filter (\<lambda>p. \<not> dropped [ex_table_0] p) ?ps"
    and m: "mset (content_blocks d) =
              image_mset (block_for Paragraph) (mset (paragraphs d))
              + image_mset (block_for Table) (mset [ex_table_0])
              + image_mset (block_for Image) (mset [ex_image_nobox])"
    and l: "length (content_blocks d) = length (paragraphs d) + length [ex_table_0]
              + length [ex_image_nobox]"
    and di: "distinct (content_blocks d)"
    using i by blast+
  have y1: "y_position (block_for Table ex_table_0) = 90"
    using assemble_one_block_per_element[of "[]" "[]" "[]" 0 Table ex_table_0]
    by (simp add: ex_table_0_def mk_table_def mk_bbox_def)
  have y2: "y_position (block_for Image ex_image_nobox) = 0"
    using assemble_one_block_per_element[of "[]" "[]" "[]" 0 Image ex_image_nobox]
    by (simp add: ex_image_nobox_def)
  from p f have p': "paragraphs d = [ex_para_0]" by simp
  with m l have "mset (content_blocks d) =
              {#block_for Paragraph ex_para_0, block_for Table ex_table_0,
                block_for Image ex_image_nobox#}" "length (content_blocks d) = 3"
    by simp_all
  with c i d p' di y1 y2 show ?thesis by blast
qed

text \<open>
  Claim C2. Whenever \<^verbatim>\<open>assemble\<close> returns a document, its content blocks are sorted by
  (page, y_position), compared lexicographically: for \<open>i < j\<close> the page of block \<open>i\<close>
  is smaller, or the pages are equal and the \<^verbatim>\<open>y_position\<close> of block \<open>i\<close> is not
  larger. The blocks with one and the same key stand in the order in which they were
  appended: the retained paragraphs, then the tables, then the images, each in input order.
\<close>

theorem assemble_sorted_stable:
  "(complete_input ps ts \<longrightarrow> (\<exists>d. assemble ps ts imgs n = Inr d))
   \<and> (\<forall>d. assemble ps ts imgs n = Inr d \<longrightarrow>
          (\<forall>i j. i < j \<and> j < length (content_blocks d) \<longrightarrow>
              page (content_blocks d ! i) < page (content_blocks d ! j)
              \<or> (page (content_blocks d ! i) = page (content_blocks d ! j)
                  \<and> y_position (content_blocks d ! i) \<le> y_position (content_blocks d ! j)))
          \<and> (\<forall>pg y. filter (\<lambda>b. page b = pg \<and> y_position b = y) (content_blocks d)
                 = filter (\<lambda>b. page b = pg \<and> y_position b = y)
                     (map (block_for Paragraph) (paragraphs d) @ map (block_for Table) ts
                      @ map (block_for Image) imgs)))"
proof (intro conjI allI impI)
  show "\<exists>d. assemble ps ts imgs n = Inr d" if "complete_input ps ts"
    using that by (rule assemble_returns)
next
  fix d i j assume a: "assemble ps ts imgs n = Inr d"
    and ij: "i < j \<and> j < length (content_blocks d)"
  have "sorted (map block_key (content_blocks d))"
    by (simp add: assemble_Inr_dropped(6)[OF a])
  with ij show "page (content_blocks d ! i) < page (content_blocks d ! j)
              \<or> (page (content_blocks d ! i) = page (content_blocks d ! j)
                  \<and> y_position (content_blocks d ! i) \<le> y_position (content_blocks d ! j))"
    using sorted_block_keys[of "content_blocks d" i j] by blast
next
  fix d pg y assume a: "assemble ps ts imgs n = Inr d"
  have k: "(\<lambda>b. page b = pg \<and> y_position b = y) = (\<lambda>b. block_key b = (pg, y))"
    by (auto simp: block_key_def)
  show "filter (\<lambda>b. page b = pg \<and> y_position b = y) (content_blocks d)
                 = filter (\<lambda>b. page b = pg \<and> y_position b = y)
                     (map (block_for Paragraph) (paragraphs d) @ map (block_for Table) ts
                      @ map (block_for Image) imgs)"
    unfolding k assemble_Inr_dropped(6)[OF a] sort_key_stable
    by (simp add: appended_blocks_def)
qed

theorem assemble_sorted_stable_witness:
  "complete_input ex_three_paras [ex_table_top]
   \<and> (\<exists>d. assemble ex_three_paras [ex_table_top] [] 2 = Inr d
          \<and> map content_id (content_blocks d) = [''para-1'', ''table-0'', ''para-2'', ''para-0'']
          \<and> (page (content_blocks d ! 0) < page (content_blocks d ! 3)
              \<or> (page (content_blocks d ! 0) = page (content_blocks d ! 3)
                  \<and> y_position (content_blocks d ! 0) \<le> y_position (content_blocks d ! 3)))
          \<and> filter (\<lambda>b. page b = 1 \<and> y_position b = 10) (content_blocks d)
              = [block_for Paragraph ex_para_p1_top, block_for Table ex_table_top])"
proof -
  note main = assemble_sorted_stable[of ex_three_paras "[ex_table_top]" "[]" 2]
  from main[THEN conjunct1, rule_format, OF ex_three_complete] obtain d
    where d: "assemble ex_three_paras [ex_table_top] [] 2 = Inr d" ..
  note props = main[THEN conjunct2, rule_format, OF d]
  from ex_three_ids d
  have ids: "map content_id (content_blocks d) = [''para-1'', ''table-0'', ''para-2'', ''para-0'']"
    by simp
  then have "length (content_blocks d) = 4"
    using length_map[of content_id "content_blocks d"] by simp
  then have lt: "(0::nat) < 3 \<and> 3 < length (content_blocks d)" by simp
  have s: "page (content_blocks d ! 0) < page (content_blocks d ! 3)
              \<or> (page (content_blocks d ! 0) = page (content_blocks d ! 3)
                  \<and> y_position (content_blocks d ! 0) \<le> y_position (content_blocks d ! 3))"
    by (rule props[THEN conjunct1, rule_format, OF lt])
  have p: "paragraphs d = ex_three_paras"
    using assemble_Inr_dropped(1)[OF d] ex_three_retained by simp
  have "filter (\<lambda>b. page b = 1 \<and> y_position b = 10) (content_blocks d)
      = filter (\<lambda>b. page b = 1 \<and> y_position b = 10)
          (map (block_for Paragraph) (paragraphs d) @ map (block_for Table) [ex_table_top]
           @ map (block_for Image) ([]::image list))"
    by (rule props[THEN conjunct2, rule_format])
  also have "\<dots> = [block_for Paragraph ex_para_p1_top, block_for Table ex_table_top]"
    unfolding p by (rule ex_tie_blocks)
  finally have t: "filter (\<lambda>b. page b = 1 \<and> y_position b = 10) (content_blocks d)
      = [block_for Paragraph ex_para_p1_top, block_for Table ex_table_top]" .
  show ?thesis
    by (intro conjI exI[of _ d]) (rule ex_three_complete d ids s t)+
qed

text \<open>
  Claim C3. Whenever \<^verbatim>\<open>assemble\<close> returns a document, its \<^verbatim>\<open>full_text\<close> is the
  contents of the paragraphs that the overlap filter retains, in their input order, joined
  by newlines; the order of the content blocks plays no part in it.
\<close>

theorem assemble_full_text:
  "(complete_input ps ts \<longrightarrow> (\<exists>d. assemble ps ts imgs n = Inr d))
   \<and> (\<forall>d. assemble ps ts imgs n = Inr d \<longrightarrow>
          full_text d = join [CHR 0x0A] (map content (filter (\<lambda>p. \<not> dropped ts p) ps))
          \<and> paragraphs d = filter (\<lambda>p. \<not> dropped ts p) ps)"
proof (intro conjI allI impI)
  show "\<exists>d. assemble ps ts imgs n = Inr d" if "complete_input ps ts"
    using that by (rule assemble_returns)
next
  fix d assume a: "assemble ps ts imgs n = Inr d"
  show "paragraphs d = filter (\<lambda>p. \<not> dropped ts p) ps"
    by (rule assemble_Inr_dropped(1)[OF a])
  then show "full_text d = join [CHR 0x0A] (map content (filter (\<lambda>p. \<not> dropped ts p) ps))"
    using assemble_Inr_dropped(5)[OF a] by simp
qed

theorem assemble_full_text_witness:
  "complete_input ex_three_paras [ex_table_top]
   \<and> (\<exists>d. assemble ex_three_paras [ex_table_top] [] 2 = Inr d
          \<and> full_text d
              = ''Page 2 text'' @ [CHR 0x0A] @ ''Page 1 top'' @ [CHR 0x0A] @ ''Page 1 bottom''
          \<and> map content_id (content_blocks d) = [''para-1'', ''table-0'', ''para-2'', ''para-0''])"
proof -
  note main = assemble_full_text[of ex_three_paras "[ex_table_top]" "[]" 2]
  from main[THEN conjunct1, rule_format, OF ex_three_complete] obtain d
    where d: "assemble ex_three_paras [ex_table_top] [] 2 = Inr d" ..
  note props = main[THEN conjunct2, rule_format, OF d]
  from ex_three_ids d
  have ids: "map content_id (content_blocks d) = [''para-1'', ''table-0'', ''para-2'', ''para-0'']"
    by simp
  have "full_text d
      = join [CHR 0x0A] (map content (filter (\<lambda>p. \<not> dropped [ex_table_top] p) ex_three_paras))"
    by (rule props[THEN conjunct1])
  also have "\<dots> = ''Page 2 text'' @ [CHR 0x0A] @ ''Page 1 top'' @ [CHR 0x0A] @ ''Page 1 bottom''"
    unfolding ex_three_retained by (rule ex_three_text)
  finally have t: "full_text d
      = ''Page 2 text'' @ [CHR 0x0A] @ ''Page 1 top'' @ [CHR 0x0A] @ ''Page 1 bottom''" .
  show ?thesis
    by (intro conjI exI[of _ d]) (rule ex_three_complete d ids t)+
qed


section \<open>Properties of html_converter.py\<close>

subsection \<open>Escaping works character by character\<close>

lemma replace_char_append:
  "replace_char old new (a @ b) = replace_char old new a @ replace_char old new b"
  by (simp add: replace_char_def)

lemma replace_char_Nil: "replace_char old new [] = []"
  by (simp add: replace_char_def)

lemma replace_char_Cons:
  "replace_char old new (c # cs) = (if c = old then new else [c]) @ replace_char old new cs"
  by (simp add: replace_char_def)

lemma escape_html_Nil: "escape_html [] = []"
  by (simp add: escape_html_def replace_char_Nil)

lemma escape_html_single: "escape_html [c] = escape_char c"
  by (simp add: escape_html_def escape_char_def replace_char_Cons replace_char_Nil)

lemma escape_html_append: "escape_html (a @ b) = escape_html a @ escape_html b"
  by (simp add: escape_html_def replace_char_append)

lemma escape_html_concat_map: "escape_html s = concat (map escape_char s)"
proof (induction s)
  case Nil
  show ?case by (simp add: escape_html_Nil)
next
  case (Cons c cs)
  have "escape_html (c # cs) = escape_html ([c] @ cs)" by simp
  also have "\<dots> = escape_char c @ escape_html cs"
    unfolding escape_html_append escape_html_single ..
  finally show ?case using Cons.IH by simp
qed

lemma render_cell_Some:
  "render_cell (Some c) =
     ''<'' @ (if kind c = Some ColumnHeader then ''th'' else ''td'')
     @ span_attr ''colspan'' (column_span c) @ span_attr ''rowspan'' (row_span c) @ ''>''
     @ escape_html (cell_content c)
     @ ''</'' @ (if kind c = Some ColumnHeader then ''th'' else ''td'') @ ''>''"
  by (simp add: render_cell_def Let_def)

lemma render_block_paragraph:
  "block_type b = Paragraph \<Longrightarrow> by_id (paragraphs d) (content_id b) = Some p \<Longrightarrow>
     render_block d b =
       ''<'' @ get_role_tag (role p) @ ''>'' @ escape_html (content p)
       @ ''</'' @ get_role_tag (role p) @ ''>''"
  by (simp add: render_block_def Let_def)

lemma ex_doc_escape_lookup:
  "block_type (block_for Paragraph ex_para_escape) = Paragraph
   \<and> by_id (paragraphs ex_doc_escape) (content_id (block_for Paragraph ex_para_escape))
       = Some ex_para_escape"
  by code_simp

lemma ex_escape_text:
  "''<'' @ get_role_tag (role ex_para_escape) @ ''>''
   @ concat (map escape_char (content ex_para_escape))
   @ ''</'' @ get_role_tag (role ex_para_escape) @ ''>'' = ''<p>a &lt; b &amp; c &gt; d</p>''"
  by code_simp


subsection \<open>The rendered grid has the rows that the cells reach\<close>

lemma pad_rows_eq:
  "pad_rows cols grid r = grid @ replicate (Suc r - length grid) (replicate (nat cols) None)"
proof (induction cols grid r rule: pad_rows.induct)
  case (1 cols grid r)
  show ?case
  proof (cases "length grid \<le> r")
    case True
    then have "Suc r - length grid = Suc (r - length grid)" by simp
    with True 1 show ?thesis
      by (subst pad_rows.simps) (simp add: replicate_append_same Suc_diff_le)
  next
    case False
    then show ?thesis by (subst pad_rows.simps) simp
  qed
qed

lemma grid_rows_snoc: "grid_rows (cs @ [x]) = max (grid_rows cs) (Suc (row_index x))"
  by (simp add: grid_rows_def)

lemma grid_rows_Nil: "grid_rows [] = 0"
  by (simp add: grid_rows_def)

lemma row_index_less_grid_rows: "y \<in> set cs \<Longrightarrow> row_index y < grid_rows cs"
proof (induction cs rule: rev_induct)
  case Nil
  then show ?case by simp
next
  case (snoc x xs)
  then show ?case unfolding grid_rows_snoc by auto
qed

lemma cell_at_snoc:
  "cell_at (cs @ [x]) r c =
     (if row_index x = r \<and> column_index x = c then Some x else cell_at cs r c)"
  by (simp add: cell_at_def)

lemma cell_at_beyond: "grid_rows cs \<le> r \<Longrightarrow> cell_at cs r c = None"
  unfolding cell_at_def find_None_iff
  using row_index_less_grid_rows[of _ cs] by fastforce

lemma empty_row_beyond:
  "grid_rows cs \<le> r \<Longrightarrow> map (\<lambda>c. cell_at cs r c) [0..<k] = replicate k None"
  by (auto simp: list_eq_iff_nth_eq cell_at_beyond)

lemma grid_of_extend:
  "n \<le> m \<Longrightarrow> grid_rows cs \<le> n \<Longrightarrow>
     grid_of cols cs n @ replicate (m - n) (replicate (nat cols) None) = grid_of cols cs m"
proof -
  assume nm: "n \<le> m" and g: "grid_rows cs \<le> n"
  have "grid_of cols cs m = grid_of cols cs n @ map (\<lambda>r. map (\<lambda>c. cell_at cs r c) [0..<nat cols]) [n..<m]"
    using nm unfolding grid_of_def by (metis map_append upt_add_eq_append le_add_diff_inverse zero_le)
  also have "map (\<lambda>r. map (\<lambda>c. cell_at cs r c) [0..<nat cols]) [n..<m]
      = map (\<lambda>r. replicate (nat cols) None) [n..<m]"
    using g by (auto simp: empty_row_beyond intro!: map_cong)
  also have "\<dots> = replicate (m - n) (replicate (nat cols) None)"
    by (simp add: map_replicate_const)
  finally show ?thesis by simp
qed

lemma length_grid_of: "length (grid_of cols cs n) = n"
  by (simp add: grid_of_def)

lemma nth_grid_of:
  "r < n \<Longrightarrow> grid_of cols cs n ! r = map (\<lambda>c. cell_at cs r c) [0..<nat cols]"
  by (simp add: grid_of_def)

lemma pad_rows_grid_of:
  "pad_rows cols (grid_of cols cs (grid_rows cs)) r
   = grid_of cols cs (max (grid_rows cs) (Suc r))"
proof -
  let ?n = "grid_rows cs" and ?m = "max (grid_rows cs) (Suc r)"
  have "Suc r - ?n = ?m - ?n" by simp
  then have "pad_rows cols (grid_of cols cs ?n) r
      = grid_of cols cs ?n @ replicate (?m - ?n) (replicate (nat cols) None)"
    unfolding pad_rows_eq length_grid_of by simp
  also have "\<dots> = grid_of cols cs ?m" by (rule grid_of_extend) simp_all
  finally show ?thesis .
qed

lemma row_snoc_same:
  "map (\<lambda>c. cell_at (cs @ [x]) (row_index x) c) [0..<k]
   = (if column_index x < k
      then (map (\<lambda>c. cell_at cs (row_index x) c) [0..<k])[column_index x := Some x]
      else map (\<lambda>c. cell_at cs (row_index x) c) [0..<k])"
  by (auto simp: list_eq_iff_nth_eq cell_at_snoc nth_list_update)

lemma row_snoc_other:
  "r \<noteq> row_index x \<Longrightarrow>
     map (\<lambda>c. cell_at (cs @ [x]) r c) [0..<k] = map (\<lambda>c. cell_at cs r c) [0..<k]"
  by (simp add: cell_at_snoc)

lemma grid_of_snoc:
  assumes "row_index x < n"
  shows "grid_of cols (cs @ [x]) n =
     (if column_index x < nat cols
      then (grid_of cols cs n)[row_index x :=
              (grid_of cols cs n ! row_index x)[column_index x := Some x]]
      else grid_of cols cs n)"
proof -
  have "grid_of cols (cs @ [x]) n ! r =
     (if column_index x < nat cols
      then (grid_of cols cs n)[row_index x :=
              (grid_of cols cs n ! row_index x)[column_index x := Some x]]
      else grid_of cols cs n) ! r" if "r < n" for r
  proof (cases "r = row_index x")
    case True
    with that show ?thesis
      by (simp add: nth_grid_of length_grid_of row_snoc_same)
  next
    case False
    with that show ?thesis
      by (simp add: nth_grid_of length_grid_of row_snoc_other)
  qed
  then show ?thesis
    by (intro nth_equalityI) (simp_all add: length_grid_of split: if_splits)
qed

lemma place_cell_grid_of:
  "place_cell cols (grid_of cols cs (grid_rows cs)) x
   = grid_of cols (cs @ [x]) (grid_rows (cs @ [x]))"
proof -
  let ?m = "max (grid_rows cs) (Suc (row_index x))"
  have r: "row_index x < ?m" by simp
  have len: "length (grid_of cols cs ?m ! row_index x) = nat cols"
    using r by (simp add: nth_grid_of)
  show ?thesis
    unfolding place_cell_def Let_def pad_rows_grid_of grid_rows_snoc len
    using grid_of_snoc[OF r, of cols cs] by simp
qed

lemma foldl_place_cell:
  "foldl (place_cell cols) [] cs = grid_of cols cs (grid_rows cs)"
proof (induction cs rule: rev_induct)
  case Nil
  show ?case by (simp add: grid_of_def grid_rows_Nil)
next
  case (snoc x xs)
  show ?case by (simp add: snoc place_cell_grid_of)
qed

lemma render_grid_of:
  "concat (map render_row (grid_of (columns t) (cells t) n)) = rows_html t n"
  by (simp add: grid_of_def rows_html_def render_row_def comp_def)

lemma table_to_html_rows:
  "table_to_html t = table_open t @ rows_html t (grid_rows (cells t)) @ ''</tbody></table>''"
  by (simp add: table_to_html_def table_open_def foldl_place_cell render_grid_of)

lemma foldl_max_Suc:
  "foldl (\<lambda>n c. max n (Suc (row_index c))) a cs = Max (insert a ((\<lambda>c. Suc (row_index c)) ` set cs))"
proof (induction cs arbitrary: a)
  case Nil
  show ?case by simp
next
  case (Cons x xs)
  have "Max (insert (max a (Suc (row_index x))) ((\<lambda>c. Suc (row_index c)) ` set xs))
      = Max (insert a (insert (Suc (row_index x)) ((\<lambda>c. Suc (row_index c)) ` set xs)))"
    by (cases "xs = []") (simp_all add: max.assoc)
  then show ?case by (simp add: Cons)
qed

lemma grid_rows_Max:
  "cs \<noteq> [] \<Longrightarrow> grid_rows cs = Suc (Max (row_index ` set cs))"
proof -
  assume ne: "cs \<noteq> []"
  have "grid_rows cs = Max (insert 0 (Suc ` row_index ` set cs))"
    unfolding grid_rows_def foldl_max_Suc by (simp add: image_image)
  also have "\<dots> = Max (Suc ` row_index ` set cs)"
    using ne by (subst Max_insert) simp_all
  also have "\<dots> = Suc (Max (row_index ` set cs))"
    using ne by (intro mono_Max_commute[symmetric]) (auto simp: mono_def)
  finally show ?thesis .
qed

lemma render_cell_None: "render_cell None = ''<td></td>''"
  by (simp add: render_cell_def)

lemma spec_table_html_eq:
  "nat (rows t) = grid_rows (cells t) \<Longrightarrow> table_to_html t = spec_table_html t"
  by (simp add: table_to_html_rows spec_table_html_def)

lemma ex_table_0_html:
  "table_to_html ex_table_0 = ''<table border=\"1\" id=\"table-0\"><tbody></tbody></table>''"
  by code_simp

lemma ex_table_0_spec:
  "spec_table_html ex_table_0 =
     ''<table border=\"1\" id=\"table-0\"><tbody>''
     @ ''<tr><td></td><td></td></tr><tr><td></td><td></td></tr>''
     @ ''</tbody></table>''"
  by code_simp

lemma ex_table_names_rows: "nat (rows ex_table_names) = grid_rows (cells ex_table_names)"
  by code_simp

lemma ex_table_names_cells: "cells ex_table_names \<noteq> []"
  by code_simp

lemma ex_table_names_spec:
  "spec_table_html ex_table_names =
     ''<table border=\"1\" id=\"table-0\"><tbody>''
     @ ''<tr><th>Name</th><th>Age</th></tr><tr><td>Alice</td><td>30</td></tr>''
     @ ''</tbody></table>''"
  by code_simp

lemma ex_wide_cell_text:
  "''<'' @ (if kind ex_wide_cell = Some ColumnHeader then ''th'' else ''td'')
       @ (case column_span ex_wide_cell of
            None \<Rightarrow> []
          | Some n \<Rightarrow> if n > 1 then '' colspan=\"'' @ str_int n @ ''\"'' else [])
       @ (case row_span ex_wide_cell of
            None \<Rightarrow> []
          | Some n \<Rightarrow> if n > 1 then '' rowspan=\"'' @ str_int n @ ''\"'' else [])
       @ ''>'' @ escape_html (cell_content ex_wide_cell)
       @ ''</'' @ (if kind ex_wide_cell = Some ColumnHeader then ''th'' else ''td'') @ ''>''
   = ''<td colspan=\"2\" rowspan=\"3\">a&lt;b</td>''"
  by code_simp


subsection \<open>Claim on the escaping\<close>

text \<open>
  Claim C7. The escaping is the five substitutions for \<^verbatim>\<open>&\<close>, \<^verbatim>\<open><\<close>, \<^verbatim>\<open>>\<close>, the
  double quote and the single quote, in that order, and its result is the input with every
  character replaced on its own: each of the five by its entity, once, and every other
  character by itself. So an ampersand that a later substitution writes is never escaped
  again, which the other order would do. The text of a rendered paragraph and of a
  rendered cell is the content escaped in this way.
\<close>

theorem escape_html_escapes_once:
  "escape_html s = concat (map escape_char s)
   \<and> escape_char (CHR ''&'') = ''&amp;'' \<and> escape_char (CHR ''<'') = ''&lt;''
   \<and> escape_char (CHR ''>'') = ''&gt;'' \<and> escape_char (CHR 0x22) = ''&quot;''
   \<and> escape_char (CHR 0x27) = ''&#039;''
   \<and> (c \<notin> {CHR ''&'', CHR ''<'', CHR ''>'', CHR 0x22, CHR 0x27} \<longrightarrow> escape_char c = [c])
   \<and> escape_html s =
       replace_char (CHR 0x27) ''&#039;''
         (replace_char (CHR 0x22) ''&quot;''
           (replace_char (CHR ''>'') ''&gt;''
             (replace_char (CHR ''<'') ''&lt;''
               (replace_char (CHR ''&'') ''&amp;'' s))))
   \<and> replace_char (CHR ''&'') ''&amp;'' (replace_char (CHR ''<'') ''&lt;'' ''<'') = ''&amp;lt;''
   \<and> (block_type b = Paragraph \<and> by_id (paragraphs d) (content_id b) = Some p \<longrightarrow>
        render_block d b =
          ''<'' @ get_role_tag (role p) @ ''>'' @ concat (map escape_char (content p))
          @ ''</'' @ get_role_tag (role p) @ ''>'')
   \<and> render_cell (Some cl) =
       ''<'' @ (if kind cl = Some ColumnHeader then ''th'' else ''td'')
       @ span_attr ''colspan'' (column_span cl) @ span_attr ''rowspan'' (row_span cl) @ ''>''
       @ concat (map escape_char (cell_content cl))
       @ ''</'' @ (if kind cl = Some ColumnHeader then ''th'' else ''td'') @ ''>''"
proof (intro conjI impI)
  show "escape_html s = concat (map escape_char s)" by (rule escape_html_concat_map)
  show "escape_char (CHR ''&'') = ''&amp;''" "escape_char (CHR ''<'') = ''&lt;''"
    "escape_char (CHR ''>'') = ''&gt;''" "escape_char (CHR 0x22) = ''&quot;''"
    "escape_char (CHR 0x27) = ''&#039;''"
    by (simp_all add: escape_char_def)
  show "escape_char c = [c]" if "c \<notin> {CHR ''&'', CHR ''<'', CHR ''>'', CHR 0x22, CHR 0x27}"
    using that by (simp add: escape_char_def)
  show "escape_html s =
       replace_char (CHR 0x27) ''&#039;''
         (replace_char (CHR 0x22) ''&quot;''
           (replace_char (CHR ''>'') ''&gt;''
             (replace_char (CHR ''<'') ''&lt;''
               (replace_char (CHR ''&'') ''&amp;'' s))))"
    by (rule escape_html_def)
  show "replace_char (CHR ''&'') ''&amp;'' (replace_char (CHR ''<'') ''&lt;'' ''<'') = ''&amp;lt;''"
    by (simp add: replace_char_def)
  show "render_block d b =
          ''<'' @ get_role_tag (role p) @ ''>'' @ concat (map escape_char (content p))
          @ ''</'' @ get_role_tag (role p) @ ''>''"
    if "block_type b = Paragraph \<and> by_id (paragraphs d) (content_id b) = Some p"
    using that render_block_paragraph[of b d p] by (simp add: escape_html_concat_map)
  show "render_cell (Some cl) =
       ''<'' @ (if kind cl = Some ColumnHeader then ''th'' else ''td'')
       @ span_attr ''colspan'' (column_span cl) @ span_attr ''rowspan'' (row_span cl) @ ''>''
       @ concat (map escape_char (cell_content cl))
       @ ''</'' @ (if kind cl = Some ColumnHeader then ''th'' else ''td'') @ ''>''"
    unfolding render_cell_Some escape_html_concat_map ..
qed

theorem escape_html_escapes_once_witness:
  "escape_html ''a < b & c > d'' = ''a &lt; b &amp; c &gt; d''
   \<and> escape_html ''&'' = ''&amp;''
   \<and> CHR ''a'' \<notin> {CHR ''&'', CHR ''<'', CHR ''>'', CHR 0x22, CHR 0x27}
   \<and> escape_char (CHR ''a'') = ''a''
   \<and> render_block ex_doc_escape (block_for Paragraph ex_para_escape)
       = ''<p>a &lt; b &amp; c &gt; d</p>''"
proof -
  note main = escape_html_escapes_once
  have a: "escape_html ''a < b & c > d'' = ''a &lt; b &amp; c &gt; d''"
    unfolding main[of "''a < b & c > d''", THEN conjunct1] by code_simp
  have b: "escape_html ''&'' = ''&amp;''"
    unfolding main[of "''&''", THEN conjunct1] by code_simp
  have n: "CHR ''a'' \<notin> {CHR ''&'', CHR ''<'', CHR ''>'', CHR 0x22, CHR 0x27}" by simp
  note rest = main[of "[]" "CHR ''a''" "block_for Paragraph ex_para_escape" ex_doc_escape
      ex_para_escape, THEN conjunct2, THEN conjunct2, THEN conjunct2, THEN conjunct2,
      THEN conjunct2, THEN conjunct2]
  have c: "escape_char (CHR ''a'') = ''a''"
    by (rule rest[THEN conjunct1, rule_format, OF n])
  have "render_block ex_doc_escape (block_for Paragraph ex_para_escape)
      = ''<'' @ get_role_tag (role ex_para_escape) @ ''>''
        @ concat (map escape_char (content ex_para_escape))
        @ ''</'' @ get_role_tag (role ex_para_escape) @ ''>''"
    by (rule rest[THEN conjunct2, THEN conjunct2, THEN conjunct2, THEN conjunct1, rule_format,
          OF ex_doc_escape_lookup])
  then have r: "render_block ex_doc_escape (block_for Paragraph ex_para_escape)
       = ''<p>a &lt; b &amp; c &gt; d</p>''"
    unfolding ex_escape_text .
  show ?thesis by (intro conjI) (rule a b n c r)+
qed


subsection \<open>Claim on the table renderer\<close>

text \<open>
  Claim C6 as stated fails. The table of the assembler's tests has \<^verbatim>\<open>rows = 2\<close>, \<^verbatim>\<open>columns = 2\<close> and no
  cells. \<^verbatim>\<open>_table_to_html\<close> never reads \<^verbatim>\<open>rows\<close>: it renders no row for this
  table, where the specification's sentence asks for two rows of two empty cells.
\<close>

theorem table_rows_counterexample:
  "rows ex_table_0 = 2 \<and> columns ex_table_0 = 2 \<and> cells ex_table_0 = []
   \<and> table_to_html ex_table_0 = ''<table border=\"1\" id=\"table-0\"><tbody></tbody></table>''
   \<and> spec_table_html ex_table_0 =
       ''<table border=\"1\" id=\"table-0\"><tbody>''
       @ ''<tr><td></td><td></td></tr><tr><td></td><td></td></tr>''
       @ ''</tbody></table>''
   \<and> table_to_html ex_table_0 \<noteq> spec_table_html ex_table_0"
proof -
  have f: "rows ex_table_0 = 2" "columns ex_table_0 = 2" "cells ex_table_0 = []"
    by (simp_all add: ex_table_0_def mk_table_def)
  have ne: "table_to_html ex_table_0 \<noteq> spec_table_html ex_table_0"
    unfolding ex_table_0_html ex_table_0_spec by simp
  show ?thesis
    by (intro conjI) (rule f ex_table_0_html ex_table_0_spec ne)+
qed

text \<open>
  Claim C6, amended. The renderer emits the opening \<^verbatim>\<open><table border="1" id="{id}"><tbody>\<close>,
  then one \<^verbatim>\<open><tr>\<close> for each row index from 0 to the largest row index of a cell (no
  row when the table has no cells), then the closing tags. It agrees with the
  specification's rows 0 to \<^verbatim>\<open>rows - 1\<close> when \<^verbatim>\<open>rows\<close> is that number of rows. Each row
  has the positions 0 to \<^verbatim>\<open>columns - 1\<close>; a position without a cell emits
  \<^verbatim>\<open><td></td>\<close>, a cell emits \<^verbatim>\<open><th>\<close> when its kind is columnHeader and
  \<^verbatim>\<open><td>\<close> otherwise, with \<^verbatim>\<open>colspan\<close> and \<^verbatim>\<open>rowspan\<close> only for a span
  greater than 1, and its content escaped.
\<close>

theorem table_to_html_rows_of_cells:
  "table_to_html t =
     ''<table border=\"1\" id=\"'' @ elem_id t @ ''\"><tbody>''
     @ concat (map (\<lambda>r. ''<tr>''
                         @ concat (map (\<lambda>c. render_cell (cell_at (cells t) r c))
                                     [0..<nat (columns t)])
                         @ ''</tr>'') [0..<grid_rows (cells t)])
     @ ''</tbody></table>''
   \<and> (cells t = [] \<longrightarrow> grid_rows (cells t) = 0)
   \<and> (cells t \<noteq> [] \<longrightarrow> grid_rows (cells t) = Suc (Max (row_index ` set (cells t))))
   \<and> (nat (rows t) = grid_rows (cells t) \<longrightarrow> table_to_html t = spec_table_html t)
   \<and> render_cell None = ''<td></td>''
   \<and> render_cell (Some cl) =
       ''<'' @ (if kind cl = Some ColumnHeader then ''th'' else ''td'')
       @ (case column_span cl of
            None \<Rightarrow> []
          | Some n \<Rightarrow> if n > 1 then '' colspan=\"'' @ str_int n @ ''\"'' else [])
       @ (case row_span cl of
            None \<Rightarrow> []
          | Some n \<Rightarrow> if n > 1 then '' rowspan=\"'' @ str_int n @ ''\"'' else [])
       @ ''>'' @ escape_html (cell_content cl)
       @ ''</'' @ (if kind cl = Some ColumnHeader then ''th'' else ''td'') @ ''>''"
proof (intro conjI impI)
  show "table_to_html t =
     ''<table border=\"1\" id=\"'' @ elem_id t @ ''\"><tbody>''
     @ concat (map (\<lambda>r. ''<tr>''
                         @ concat (map (\<lambda>c. render_cell (cell_at (cells t) r c))
                                     [0..<nat (columns t)])
                         @ ''</tr>'') [0..<grid_rows (cells t)])
     @ ''</tbody></table>''"
    unfolding table_to_html_rows table_open_def rows_html_def by simp
  show "grid_rows (cells t) = 0" if "cells t = []"
    using that by (simp add: grid_rows_Nil)
  show "grid_rows (cells t) = Suc (Max (row_index ` set (cells t)))" if "cells t \<noteq> []"
    using that by (rule grid_rows_Max)
  show "table_to_html t = spec_table_html t" if "nat (rows t) = grid_rows (cells t)"
    using that by (rule spec_table_html_eq)
  show "render_cell None = ''<td></td>''" by (rule render_cell_None)
  show "render_cell (Some cl) =
       ''<'' @ (if kind cl = Some ColumnHeader then ''th'' else ''td'')
       @ (case column_span cl of
            None \<Rightarrow> []
          | Some n \<Rightarrow> if n > 1 then '' colspan=\"'' @ str_int n @ ''\"'' else [])
       @ (case row_span cl of
            None \<Rightarrow> []
          | Some n \<Rightarrow> if n > 1 then '' rowspan=\"'' @ str_int n @ ''\"'' else [])
       @ ''>'' @ escape_html (cell_content cl)
       @ ''</'' @ (if kind cl = Some ColumnHeader then ''th'' else ''td'') @ ''>''"
    by (simp add: render_cell_def span_attr_def Let_def split: option.splits)
qed

theorem table_to_html_rows_of_cells_witness:
  "nat (rows ex_table_names) = grid_rows (cells ex_table_names)
   \<and> cells ex_table_names \<noteq> []
   \<and> grid_rows (cells ex_table_names) = Suc (Max (row_index ` set (cells ex_table_names)))
   \<and> table_to_html ex_table_names =
       ''<table border=\"1\" id=\"table-0\"><tbody>''
       @ ''<tr><th>Name</th><th>Age</th></tr><tr><td>Alice</td><td>30</td></tr>''
       @ ''</tbody></table>''
   \<and> cells ex_table_0 = [] \<and> grid_rows (cells ex_table_0) = 0
   \<and> render_cell (Some ex_wide_cell) = ''<td colspan=\"2\" rowspan=\"3\">a&lt;b</td>''"
proof -
  note main = table_to_html_rows_of_cells[of ex_table_names ex_wide_cell]
  note rest = main[THEN conjunct2]
  have g: "grid_rows (cells ex_table_names) = Suc (Max (row_index ` set (cells ex_table_names)))"
    by (rule rest[THEN conjunct2, THEN conjunct1, rule_format, OF ex_table_names_cells])
  have "table_to_html ex_table_names = spec_table_html ex_table_names"
    by (rule rest[THEN conjunct2, THEN conjunct2, THEN conjunct1, rule_format,
          OF ex_table_names_rows])
  then have h: "table_to_html ex_table_names =
       ''<table border=\"1\" id=\"table-0\"><tbody>''
       @ ''<tr><th>Name</th><th>Age</th></tr><tr><td>Alice</td><td>30</td></tr>''
       @ ''</tbody></table>''"
    unfolding ex_table_names_spec .
  have e: "cells ex_table_0 = []" by (simp add: ex_table_0_def mk_table_def)
  have z: "grid_rows (cells ex_table_0) = 0"
    by (rule table_to_html_rows_of_cells[of ex_table_0 ex_wide_cell, THEN conjunct2,
          THEN conjunct1, rule_format, OF e])
  have w: "render_cell (Some ex_wide_cell) = ''<td colspan=\"2\" rowspan=\"3\">a&lt;b</td>''"
    using rest[THEN conjunct2, THEN conjunct2, THEN conjunct2, THEN conjunct2]
    unfolding ex_wide_cell_text .
  show ?thesis
    by (intro conjI) (rule ex_table_names_rows ex_table_names_cells g h e z w)+
qed


section \<open>Properties of role_detector.py\<close>

subsection \<open>The counter and its most common element\<close>

lemma round_half_even_close: "\<bar>y - of_int (round_half_even y)\<bar> \<le> 1 / 2"
proof -
  have "of_int \<lfloor>y\<rfloor> \<le> y" "y < of_int \<lfloor>y\<rfloor> + 1" by linarith+
  then show ?thesis
    by (auto simp: round_half_even_def Let_def)
qed

lemma pow2_powi: "pow2 e = 2 powi e"
  by (simp add: pow2_def power_int_def inverse_eq_divide power_one_over)

lemma pow2_pos: "0 < pow2 e"
  by (simp add: pow2_powi)

lemma pow2_add: "pow2 (a + b) = pow2 a * pow2 b"
  by (simp add: pow2_powi power_int_add)

lemma pow2_Suc: "pow2 (e + 1) = 2 * pow2 e"
  by (simp add: pow2_powi power_int_add)

lemma pow2_pred: "pow2 (e - 1) = pow2 e / 2"
  using pow2_Suc[of "e - 1"] by simp

lemma pow2_nonneg_int: "0 \<le> e \<Longrightarrow> pow2 e = of_int (2 ^ nat e)"
  by (simp add: pow2_def)

lemma bit_length_pos: "0 < n \<Longrightarrow> 1 \<le> bit_length n"
proof (induction n rule: bit_length.induct)
  case (1 n)
  then have "0 \<le> bit_length (n div 2)"
    by (cases "0 < n div 2") (simp_all del: bit_length.simps add: bit_length.simps[of "n div 2"], force)
  with "1.prems" show ?case by (subst bit_length.simps) simp
qed

lemma foldl_append_concat: "foldl (\<lambda>acc x. acc @ f x) acc xs = acc @ concat (map f xs)"
  by (induction xs arbitrary: acc) simp_all

lemma weighted_sizes_concat:
  "weighted_sizes ps =
     concat (map (\<lambda>p. replicate (min (length (content p)) 200) (py_round1 (get_font_size p))) ps)"
  unfolding weighted_sizes_def
  using foldl_append_concat[of "\<lambda>p. replicate (min (length (content p)) 200)
      (py_round1 (get_font_size p))" "[]" ps]
  by simp

lemma mset_weighted_sizes: "mset (weighted_sizes ps) = size_weights ps"
  by (simp add: weighted_sizes_concat size_weights_def mset_concat comp_def)

lemma weighted_sizes_Nil_iff:
  "weighted_sizes ps = [] \<longleftrightarrow> (\<forall>p\<in>set ps. content p = [])"
  by (auto simp: weighted_sizes_concat min_def)

lemma map_of_counter_incr:
  "map_of (counter_incr kvs x) =
     (map_of kvs)(x \<mapsto> (case map_of kvs x of None \<Rightarrow> 1 | Some m \<Rightarrow> Suc m))"
  by (induction kvs x rule: counter_incr.induct) (auto simp: fun_eq_iff)

lemma keys_counter_incr:
  "map fst (counter_incr kvs x) =
     (if x \<in> set (map fst kvs) then map fst kvs else map fst kvs @ [x])"
  by (induction kvs x rule: counter_incr.induct) auto

lemma Counter_snoc: "Counter (xs @ [x]) = counter_incr (Counter xs) x"
  by (simp add: Counter_def)

lemma Counter_Nil: "Counter [] = []"
  by (simp add: Counter_def)

lemma distinct_keys_Counter: "distinct (map fst (Counter xs))"
proof (induction xs rule: rev_induct)
  case Nil
  show ?case by (simp add: Counter_Nil)
next
  case (snoc x xs)
  then show ?case unfolding Counter_snoc keys_counter_incr by simp
qed

lemma keys_Counter: "set (map fst (Counter xs)) = set xs"
proof (induction xs rule: rev_induct)
  case Nil
  show ?case by (simp add: Counter_Nil)
next
  case (snoc x xs)
  then show ?case unfolding Counter_snoc keys_counter_incr by auto
qed

lemma Counter_eq_Nil: "Counter xs = [] \<longleftrightarrow> xs = []"
  using keys_Counter[of xs] by (cases "Counter xs") auto

lemma map_of_Counter_fun:
  "map_of (Counter xs) = (\<lambda>k. if k \<in> set xs then Some (count_list xs k) else None)"
proof (induction xs rule: rev_induct)
  case Nil
  show ?case by (simp add: Counter_Nil)
next
  case (snoc x xs)
  show ?case unfolding Counter_snoc map_of_counter_incr snoc by (auto simp: fun_eq_iff)
qed

lemma map_of_Counter:
  "map_of (Counter xs) k = (if k \<in> set xs then Some (count_list xs k) else None)"
  by (simp add: map_of_Counter_fun)

lemma in_Counter_iff:
  "(k, n) \<in> set (Counter xs) \<longleftrightarrow> k \<in> set xs \<and> n = count_list xs k"
  using map_of_eq_Some_iff[OF distinct_keys_Counter, of xs k n] map_of_Counter[of xs k]
  by (auto split: if_splits)

lemma max_by_count_in: "max_by_count best kvs \<in> set (best # kvs)"
  by (induction kvs arbitrary: best) (auto split: if_splits)

lemma max_by_count_ge_best: "snd best \<le> snd (max_by_count best kvs)"
proof (induction kvs arbitrary: best)
  case Nil
  show ?case by simp
next
  case (Cons kv kvs)
  show ?case
    using Cons[of "if snd best < snd kv then kv else best"] by (auto split: if_splits)
qed

lemma max_by_count_max: "kv \<in> set (best # kvs) \<Longrightarrow> snd kv \<le> snd (max_by_count best kvs)"
proof (induction kvs arbitrary: best)
  case Nil
  then show ?case by simp
next
  case (Cons a kvs)
  let ?b = "if snd best < snd a then a else best"
  from Cons.prems consider "kv = best" | "kv = a" | "kv \<in> set kvs" by auto
  then show ?case
  proof cases
    case 1
    have "snd best \<le> snd ?b" by simp
    also have "\<dots> \<le> snd (max_by_count ?b kvs)" by (rule max_by_count_ge_best)
    finally show ?thesis using 1 by simp
  next
    case 2
    have "snd a \<le> snd ?b" by simp
    also have "\<dots> \<le> snd (max_by_count ?b kvs)" by (rule max_by_count_ge_best)
    finally show ?thesis using 2 by simp
  next
    case 3
    then have "kv \<in> set (?b # kvs)" by simp
    from Cons.IH[OF this] show ?thesis by simp
  qed
qed

lemma most_common_is_mode:
  assumes "Counter xs = kv # kvs"
  shows "fst (max_by_count kv kvs) \<in> set xs"
    and "count_list xs s \<le> count_list xs (fst (max_by_count kv kvs))"
proof -
  let ?r = "max_by_count kv kvs"
  have "?r \<in> set (Counter xs)" unfolding assms by (rule max_by_count_in)
  then have r: "fst ?r \<in> set xs \<and> snd ?r = count_list xs (fst ?r)"
    using in_Counter_iff[of "fst ?r" "snd ?r" xs] by simp
  then show "fst ?r \<in> set xs" by simp
  show "count_list xs s \<le> count_list xs (fst ?r)"
  proof (cases "s \<in> set xs")
    case True
    then have "(s, count_list xs s) \<in> set (kv # kvs)"
      using in_Counter_iff[of s "count_list xs s" xs] assms by simp
    from max_by_count_max[OF this] r show ?thesis by simp
  next
    case False
    then show ?thesis by simp
  qed
qed

lemma detect_body_font_size_mode:
  "(weighted_sizes ps = [] \<longrightarrow> detect_body_font_size ps = 12)
   \<and> (weighted_sizes ps \<noteq> [] \<longrightarrow>
        detect_body_font_size ps \<in> set (weighted_sizes ps)
        \<and> (\<forall>s. count_list (weighted_sizes ps) s
               \<le> count_list (weighted_sizes ps) (detect_body_font_size ps)))"
proof (cases "weighted_sizes ps = []")
  case True
  then show ?thesis by (simp add: detect_body_font_size_def)
next
  case False
  then obtain kv kvs where c: "Counter (weighted_sizes ps) = kv # kvs"
    using Counter_eq_Nil[of "weighted_sizes ps"] by (cases "Counter (weighted_sizes ps)") auto
  with False have d: "detect_body_font_size ps = fst (max_by_count kv kvs)"
    by (simp add: detect_body_font_size_def)
  from most_common_is_mode[OF c] False show ?thesis unfolding d by blast
qed

lemma classify_map:
  "classify ps tt ht =
     map (\<lambda>p. p\<lparr>role := classify_single (get_font_size p) (get_bold p)
                         (detect_body_font_size ps) (py_float tt) (py_float ht)\<rparr>) ps"
  by (simp add: classify_def Let_def)

lemma get_font_size_role: "get_font_size (p\<lparr>role := r\<rparr>) = get_font_size p"
  by (simp add: get_font_size_def)

lemma get_bold_role: "get_bold (p\<lparr>role := r\<rparr>) = get_bold p"
  by (simp add: get_bold_def)

lemma weighted_sizes_role:
  "weighted_sizes (map (\<lambda>p. p\<lparr>role := f p\<rparr>) ps) = weighted_sizes ps"
  by (simp add: weighted_sizes_concat comp_def get_font_size_role)

lemma detect_body_font_size_role:
  "detect_body_font_size (map (\<lambda>p. p\<lparr>role := f p\<rparr>) ps) = detect_body_font_size ps"
  by (simp add: detect_body_font_size_def weighted_sizes_role)

lemma detect_body_font_size_classify:
  "detect_body_font_size (classify ps tt ht) = detect_body_font_size ps"
  unfolding classify_map by (rule detect_body_font_size_role)

lemma classify_single_first_match:
  "classify_single s b B T H =
     first_match
       [(s \<ge> T, Title),
        (s \<ge> float_mul B (py_float (3 / 2)) \<and> b, Title),
        (s \<ge> H, SectionHeading),
        (b \<and> s > float_mul B (py_float (11 / 10)), SectionHeading)]"
  by (simp add: classify_single_def first_match_def)

lemma py_round1_tenth:
  "\<exists>k. py_round1 x = py_float (of_int k / 10) \<and> \<bar>py_float x * 10 - of_int k\<bar> \<le> 1 / 2"
  unfolding py_round1_def
  using round_half_even_close[of "py_float x * 10"] by blast

lemma get_font_size_bind:
  "get_font_size p = py_float (case Option.bind (font p) font_size of None \<Rightarrow> 12 | Some s \<Rightarrow> s)"
  by (simp add: get_font_size_def split: option.splits)

lemma get_bold_bind: "get_bold p \<longleftrightarrow> Option.bind (font p) bold = Some True"
  by (auto simp: get_bold_def split: option.splits)

lemma count_list_replicate_if: "count_list (replicate n x) y = (if x = y then n else 0)"
  by (induction n) auto

lemma count_list_app: "count_list (xs @ ys) y = count_list xs y + count_list ys y"
  by (induction xs) simp_all

lemma detect_two:
  assumes "min (length (content p)) 200 < min (length (content q)) 200"
  shows "detect_body_font_size [p, q] = py_round1 (get_font_size q)"
proof -
  let ?rp = "py_round1 (get_font_size p)" and ?rq = "py_round1 (get_font_size q)"
  let ?wp = "min (length (content p)) 200" and ?wq = "min (length (content q)) 200"
  have w: "weighted_sizes [p, q] = replicate ?wp ?rp @ replicate ?wq ?rq"
    by (simp add: weighted_sizes_concat)
  from assms have ne: "weighted_sizes [p, q] \<noteq> []" unfolding w by auto
  note mode = detect_body_font_size_mode[of "[p, q]", THEN conjunct2, rule_format, OF ne]
  from mode[THEN conjunct1] have "detect_body_font_size [p, q] \<in> {?rp, ?rq}"
    unfolding w by (auto split: if_splits)
  then consider "detect_body_font_size [p, q] = ?rq" | "detect_body_font_size [p, q] = ?rp"
    by auto
  then show ?thesis
  proof cases
    case 1
    then show ?thesis .
  next
    case 2
    show ?thesis
    proof (cases "?rp = ?rq")
      case True
      with 2 show ?thesis by simp
    next
      case False
      from mode[THEN conjunct2, rule_format, of ?rq]
      have "count_list (replicate ?wp ?rp @ replicate ?wq ?rq) ?rq
          \<le> count_list (replicate ?wp ?rp @ replicate ?wq ?rq) ?rp"
        unfolding w 2 .
      with False have "?wq \<le> ?wp"
        by (simp add: count_list_app count_list_replicate_if split: if_splits)
      with assms show ?thesis by arith
    qed
  qed
qed

lemma classify_two:
  assumes "min (length (content p)) 200 < min (length (content q)) 200"
  shows "map role (classify [p, q] tt ht) =
     [classify_single (get_font_size p) (get_bold p) (py_round1 (get_font_size q))
        (py_float tt) (py_float ht),
      classify_single (get_font_size q) (get_bold q) (py_round1 (get_font_size q))
        (py_float tt) (py_float ht)]"
  unfolding classify_map detect_two[OF assms] by simp

lemma ex_body_length: "length (concat (replicate 50 ''Body '')) = 250"
  by (simp add: length_concat sum_list_replicate)

lemma ex_float_11_10: "py_float (11 / 10) = 2476979795053773 / 2251799813685248"
  by code_simp

lemma ex_float_3_2: "py_float (3 / 2) = 3 / 2"
  by code_simp

lemma ex_float_mul_108: "float_mul (py_float (54 / 5)) (py_float (3 / 2)) > py_float (81 / 5)"
  by code_simp

lemma ex_round_1265: "py_round1 (253 / 20) = py_float (127 / 10)"
  by code_simp

lemma ex_scenario_single:
  "classify_single (get_font_size ex_title_para) (get_bold ex_title_para)
     (py_round1 (get_font_size ex_body_para)) (py_float 18) (py_float 14) = Some Title"
  "classify_single (get_font_size ex_body_para) (get_bold ex_body_para)
     (py_round1 (get_font_size ex_body_para)) (py_float 18) (py_float 14) = None"
  by code_simp+

lemma ex_scenario_roles:
  "map role (classify [ex_title_para, ex_body_para] 18 14) = [Some Title, None]"
proof -
  have "min (length (content ex_title_para)) 200 < min (length (content ex_body_para)) 200"
    by (simp add: ex_title_para_def ex_body_para_def mk_sized_def ex_body_length)
  from classify_two[OF this, of 18 14] show ?thesis unfolding ex_scenario_single .
qed

lemma ex_162_single:
  "classify_single (get_font_size ex_bold_162) (get_bold ex_bold_162)
     (py_round1 (get_font_size ex_body_108)) (py_float 18) (py_float 14) = Some SectionHeading"
  "classify_single (get_font_size ex_body_108) (get_bold ex_body_108)
     (py_round1 (get_font_size ex_body_108)) (py_float 18) (py_float 14) = None"
  by code_simp+

lemma ex_162_roles:
  "map role (classify [ex_bold_162, ex_body_108] 18 14) = [Some SectionHeading, None]"
proof -
  have "min (length (content ex_bold_162)) 200 < min (length (content ex_body_108)) 200"
    by (simp add: ex_bold_162_def ex_body_108_def mk_sized_def ex_body_length)
  from classify_two[OF this, of 18 14] show ?thesis unfolding ex_162_single .
qed

lemma round_half_even_tie:
  assumes "\<bar>y - of_int (round_half_even y)\<bar> = 1 / 2"
  shows "even (round_half_even y)"
proof -
  have "of_int \<lfloor>y\<rfloor> \<le> y" "y < of_int \<lfloor>y\<rfloor> + 1" by linarith+
  with assms show ?thesis
    by (auto simp: round_half_even_def Let_def split: if_splits)
qed

lemma py_round1_nearest_tenth:
  "\<exists>k. py_round1 x = py_float (of_int k / 10)
      \<and> \<bar>py_float x * 10 - of_int k\<bar> \<le> 1 / 2
      \<and> (\<bar>py_float x * 10 - of_int k\<bar> = 1 / 2 \<longrightarrow> even k)"
  unfolding py_round1_def
  using round_half_even_close[of "py_float x * 10"] round_half_even_tie[of "py_float x * 10"]
  by blast


subsection \<open>Claims on the role classifier\<close>

text \<open>
  Claim C4. The body size that \<^verbatim>\<open>classify\<close> computes is 12 when every paragraph has
  empty text, and otherwise a most frequent value of the multiset in which each paragraph
  contributes \<^verbatim>\<open>min(len(content), 200)\<close> copies of its font size rounded to one decimal.
  Every paragraph then gets the role of the first rule that matches: title for a size of
  at least the title threshold; else title for a bold paragraph of at least 1.5 times the
  body size; else sectionHeading for a size of at least the heading threshold; else
  sectionHeading for a bold paragraph larger than 1.1 times the body size; else none.
  The arithmetic is that of the program, on doubles: the size is the double of the
  \<^verbatim>\<open>size\<close> entry, 12.0 without one; a paragraph is bold when its \<^verbatim>\<open>bold\<close> entry is
  true; rounding to one decimal gives the double of \<open>k / 10\<close> for the integer \<open>k\<close>
  nearest to ten times the size, the even one on a tie, so \<^verbatim>\<open>round(12.65, 1)\<close> is
  \<^verbatim>\<open>12.7\<close>; the two products are the doubles nearest to the products with the doubles
  \<^verbatim>\<open>1.5\<close> and \<^verbatim>\<open>1.1\<close>, the latter being 2476979795053773 / 2251799813685248.
  On the bold 24 point paragraph \<^verbatim>\<open>Title\<close> followed by the 12 point paragraph of fifty
  times \<^verbatim>\<open>Body \<close>, with the thresholds 18 and 14, the roles are title and none. A bold
  16.2 point paragraph over a body of 10.8 points is a sectionHeading, not a title: the
  float product \<^verbatim>\<open>10.8 * 1.5\<close> is above the double \<^verbatim>\<open>16.2\<close>.
\<close>

theorem classify_roles_from_body_size:
  "((\<forall>p\<in>set ps. content p = []) \<longrightarrow> detect_body_font_size ps = 12)
   \<and> (\<not> (\<forall>p\<in>set ps. content p = []) \<longrightarrow>
        detect_body_font_size ps \<in># size_weights ps
        \<and> (\<forall>s. count (size_weights ps) s
               \<le> count (size_weights ps) (detect_body_font_size ps)))
   \<and> classify ps title_threshold heading_threshold =
       map (\<lambda>p. p\<lparr>role := first_match
              [(get_font_size p \<ge> py_float title_threshold, Title),
               (get_font_size p \<ge> float_mul (detect_body_font_size ps) (py_float (3 / 2))
                  \<and> get_bold p, Title),
               (get_font_size p \<ge> py_float heading_threshold, SectionHeading),
               (get_bold p
                  \<and> get_font_size p > float_mul (detect_body_font_size ps) (py_float (11 / 10)),
                SectionHeading)]\<rparr>) ps
   \<and> get_font_size q
       = py_float (case Option.bind (font q) font_size of None \<Rightarrow> 12 | Some s \<Rightarrow> s)
   \<and> (get_bold q \<longleftrightarrow> Option.bind (font q) bold = Some True)
   \<and> (\<exists>k. py_round1 x = py_float (of_int k / 10)
          \<and> \<bar>py_float x * 10 - of_int k\<bar> \<le> 1 / 2
          \<and> (\<bar>py_float x * 10 - of_int k\<bar> = 1 / 2 \<longrightarrow> even k))
   \<and> py_round1 (253 / 20) = py_float (127 / 10)
   \<and> float_mul a b = py_float (py_float a * py_float b)
   \<and> py_float (3 / 2) = 3 / 2
   \<and> py_float (11 / 10) = 2476979795053773 / 2251799813685248
   \<and> map role (classify [ex_title_para, ex_body_para] 18 14) = [Some Title, None]
   \<and> map role (classify [ex_bold_162, ex_body_108] 18 14) = [Some SectionHeading, None]"
proof (intro conjI impI)
  note mode = detect_body_font_size_mode[of ps]
  show "detect_body_font_size ps = 12" if "\<forall>p\<in>set ps. content p = []"
    using that mode weighted_sizes_Nil_iff[of ps] by simp
  assume ne: "\<not> (\<forall>p\<in>set ps. content p = [])"
  then have w: "weighted_sizes ps \<noteq> []" using weighted_sizes_Nil_iff[of ps] by simp
  from mode w have "detect_body_font_size ps \<in> set (weighted_sizes ps)" by simp
  then show "detect_body_font_size ps \<in># size_weights ps"
    unfolding mset_weighted_sizes[symmetric] by simp
  from mode w have "count_list (weighted_sizes ps) s
      \<le> count_list (weighted_sizes ps) (detect_body_font_size ps)" for s by simp
  then show "\<forall>s. count (size_weights ps) s \<le> count (size_weights ps) (detect_body_font_size ps)"
    unfolding mset_weighted_sizes[symmetric] count_mset by simp
next
  show "classify ps title_threshold heading_threshold =
       map (\<lambda>p. p\<lparr>role := first_match
              [(get_font_size p \<ge> py_float title_threshold, Title),
               (get_font_size p \<ge> float_mul (detect_body_font_size ps) (py_float (3 / 2))
                  \<and> get_bold p, Title),
               (get_font_size p \<ge> py_float heading_threshold, SectionHeading),
               (get_bold p
                  \<and> get_font_size p > float_mul (detect_body_font_size ps) (py_float (11 / 10)),
                SectionHeading)]\<rparr>) ps"
    unfolding classify_map classify_single_first_match ..
  show "get_font_size q
       = py_float (case Option.bind (font q) font_size of None \<Rightarrow> 12 | Some s \<Rightarrow> s)"
    by (rule get_font_size_bind)
  show "get_bold q \<longleftrightarrow> Option.bind (font q) bold = Some True" by (rule get_bold_bind)
  show "\<exists>k. py_round1 x = py_float (of_int k / 10)
          \<and> \<bar>py_float x * 10 - of_int k\<bar> \<le> 1 / 2
          \<and> (\<bar>py_float x * 10 - of_int k\<bar> = 1 / 2 \<longrightarrow> even k)"
    by (rule py_round1_nearest_tenth)
  show "py_round1 (253 / 20) = py_float (127 / 10)" by (rule ex_round_1265)
  show "float_mul a b = py_float (py_float a * py_float b)" by (rule float_mul_def)
  show "py_float (3 / 2) = 3 / 2" by (rule ex_float_3_2)
  show "py_float (11 / 10) = 2476979795053773 / 2251799813685248" by (rule ex_float_11_10)
  show "map role (classify [ex_title_para, ex_body_para] 18 14) = [Some Title, None]"
    by (rule ex_scenario_roles)
  show "map role (classify [ex_bold_162, ex_body_108] 18 14) = [Some SectionHeading, None]"
    by (rule ex_162_roles)
qed

text \<open>
  The theorem at concrete inputs. A paragraph without text gives the body size 12. Three
  characters of size 11.96, three of size 12.04 and four of size 11 give the body size 12:
  the two sizes round to 12.0, which then counts six against four. Over a 12 point body a
  bold 13.5 point paragraph is a sectionHeading by the last rule and the same paragraph
  without bold has no role; a 16 point paragraph is a sectionHeading by the heading
  threshold; a bold 17 point paragraph over an 11 point body is a title by the second
  rule. \<^verbatim>\<open>round(0.25, 1)\<close> is \<^verbatim>\<open>0.2\<close>, the tie going to the even digit.
\<close>

theorem classify_roles_from_body_size_witness:
  "detect_body_font_size [ex_empty_para] = 12
   \<and> detect_body_font_size [ex_size_1196, ex_size_1204, ex_size_11] = 12
   \<and> map role (classify [ex_bold_135, ex_body_para] 18 14) = [Some SectionHeading, None]
   \<and> map role (classify [ex_plain_135, ex_body_para] 18 14) = [None, None]
   \<and> map role (classify [ex_plain_16, ex_body_para] 18 14) = [Some SectionHeading, None]
   \<and> map role (classify [ex_bold_17, ex_body_11] 18 14) = [Some Title, None]
   \<and> py_round1 (1 / 4) = py_float (1 / 5)"
proof -
  note main = classify_roles_from_body_size
  note empty_rule = main[THEN conjunct1, THEN mp]
  note mode_rule = main[THEN conjunct2, THEN conjunct1, THEN mp]
  note role_rule = main[THEN conjunct2, THEN conjunct2, THEN conjunct1]
  note round_rule = main[THEN conjunct2, THEN conjunct2, THEN conjunct2, THEN conjunct2,
      THEN conjunct2, THEN conjunct1]
  let ?rule = "\<lambda>B p. first_match
      [(get_font_size p \<ge> py_float 18, Title),
       (get_font_size p \<ge> float_mul B (py_float (3 / 2)) \<and> get_bold p, Title),
       (get_font_size p \<ge> py_float 14, SectionHeading),
       (get_bold p \<and> get_font_size p > float_mul B (py_float (11 / 10)), SectionHeading)]"
  let ?b12 = "py_round1 (get_font_size ex_body_para)"
  let ?b11 = "py_round1 (get_font_size ex_body_11)"

  have "\<forall>p\<in>set [ex_empty_para]. content p = []"
    by (simp add: ex_empty_para_def mk_sized_def)
  then have w1: "detect_body_font_size [ex_empty_para] = 12" by (rule empty_rule)

  let ?ps = "[ex_size_1196, ex_size_1204, ex_size_11]"
  have r: "py_round1 (get_font_size ex_size_1196) = 12"
    "py_round1 (get_font_size ex_size_1204) = 12"
    "py_round1 (get_font_size ex_size_11) = 11"
    by code_simp+
  have c: "content ex_size_1196 = ''abc''" "content ex_size_1204 = ''abc''"
    "content ex_size_11 = ''abcd''"
    by (simp_all add: ex_size_1196_def ex_size_1204_def ex_size_11_def mk_sized_def)
  have cnt: "count (size_weights ?ps) s = (if s = 12 then 6 else if s = 11 then 4 else 0)" for s
    by (simp add: size_weights_def r c)
  have "\<not> (\<forall>p\<in>set ?ps. content p = [])" by (simp add: c)
  then have m: "detect_body_font_size ?ps \<in># size_weights ?ps
      \<and> (\<forall>s. count (size_weights ?ps) s \<le> count (size_weights ?ps) (detect_body_font_size ?ps))"
    by (rule mode_rule)
  from m[THEN conjunct1] have "0 < count (size_weights ?ps) (detect_body_font_size ?ps)"
    by (simp only: count_greater_zero_iff)
  then have "detect_body_font_size ?ps = 12 \<or> detect_body_font_size ?ps = 11"
    unfolding cnt by (simp split: if_splits)
  moreover from m[THEN conjunct2, rule_format, of 12] have "detect_body_font_size ?ps \<noteq> 11"
    unfolding cnt by (simp split: if_splits)
  ultimately have w2: "detect_body_font_size ?ps = 12" by simp

  have len: "min (length (content ex_bold_135)) 200 < min (length (content ex_body_para)) 200"
    "min (length (content ex_plain_135)) 200 < min (length (content ex_body_para)) 200"
    "min (length (content ex_plain_16)) 200 < min (length (content ex_body_para)) 200"
    "min (length (content ex_bold_17)) 200 < min (length (content ex_body_11)) 200"
    by (simp_all add: ex_bold_135_def ex_plain_135_def ex_plain_16_def ex_bold_17_def
        ex_body_para_def ex_body_11_def mk_sized_def ex_body_length)
  have e: "?rule ?b12 ex_bold_135 = Some SectionHeading"
    "?rule ?b12 ex_plain_135 = None"
    "?rule ?b12 ex_plain_16 = Some SectionHeading"
    "?rule ?b12 ex_body_para = None"
    "?rule ?b11 ex_bold_17 = Some Title"
    "?rule ?b11 ex_body_11 = None"
    by code_simp+
  have w3: "map role (classify [ex_bold_135, ex_body_para] 18 14) = [Some SectionHeading, None]"
    unfolding role_rule[of "[ex_bold_135, ex_body_para]" 18 14] detect_two[OF len(1)]
    by (simp add: e)
  have w4: "map role (classify [ex_plain_135, ex_body_para] 18 14) = [None, None]"
    unfolding role_rule[of "[ex_plain_135, ex_body_para]" 18 14] detect_two[OF len(2)]
    by (simp add: e)
  have w5: "map role (classify [ex_plain_16, ex_body_para] 18 14) = [Some SectionHeading, None]"
    unfolding role_rule[of "[ex_plain_16, ex_body_para]" 18 14] detect_two[OF len(3)]
    by (simp add: e)
  have w6: "map role (classify [ex_bold_17, ex_body_11] 18 14) = [Some Title, None]"
    unfolding role_rule[of "[ex_bold_17, ex_body_11]" 18 14] detect_two[OF len(4)]
    by (simp add: e)

  have q: "py_float (1 / 4) = 1 / 4" by code_simp
  from round_rule[of "1 / 4"] obtain k :: int where
    k: "py_round1 (1 / 4) = py_float (of_int k / 10)"
      "\<bar>py_float (1 / 4) * 10 - of_int k\<bar> \<le> 1 / 2"
      "\<bar>py_float (1 / 4) * 10 - of_int k\<bar> = 1 / 2 \<longrightarrow> even k"
    by blast
  from k(2) have "(2::rat) \<le> of_int k" "of_int k \<le> (3::rat)" unfolding q by linarith+
  then have "2 \<le> k" "k \<le> 3" by simp_all
  then have "k = 2 \<or> k = 3" by arith
  moreover from k(3) have "k \<noteq> 3" unfolding q by auto
  ultimately have "k = 2" by simp
  with k(1) have w7: "py_round1 (1 / 4) = py_float (1 / 5)" by simp

  from w1 w2 w3 w4 w5 w6 w7 show ?thesis by (intro conjI)
qed

text \<open>
  Claim C8. Classifying a paragraph list that has been classified with the same thresholds
  changes nothing: the second run returns the list of the first run, roles included.
\<close>

theorem classify_idempotent:
  "classify (classify ps title_threshold heading_threshold) title_threshold heading_threshold
   = classify ps title_threshold heading_threshold"
proof -
  let ?c = "classify ps title_threshold heading_threshold"
  have "classify ?c title_threshold heading_threshold =
     map (\<lambda>p. p\<lparr>role := classify_single (get_font_size p) (get_bold p)
            (detect_body_font_size ps) (py_float title_threshold)
            (py_float heading_threshold)\<rparr>) ?c"
    unfolding classify_map[of ?c] detect_body_font_size_classify ..
  also have "\<dots> = ?c"
    unfolding classify_map[of ps] by (simp add: comp_def get_font_size_role get_bold_role)
  finally show ?thesis .
qed

theorem classify_idempotent_witness:
  "map role (classify (classify [ex_title_para, ex_body_para] 18 14) 18 14) = [Some Title, None]
   \<and> map role (classify [ex_title_para, ex_body_para] 18 14) = [Some Title, None]"
  unfolding classify_idempotent[of "[ex_title_para, ex_body_para]" 18 14]
  using ex_scenario_roles by simp


section \<open>Properties of page_filter.py\<close>

subsection \<open>The parser fails on the first bad component and collects the pages of the others\<close>

lemma finite_denoted: "finite (denoted part)"
  by (simp add: denoted_def split: option.splits)

lemma parse_loop_step:
  "parse_loop pgs (raw # rest) =
     (if malformed (strip raw) \<or> reversed (strip raw) then Inl ValueError
      else parse_loop (pgs \<union> denoted (strip raw)) rest)"
proof (cases "is_range (strip raw)")
  case True
  then show ?thesis
    by (cases "py_int (range_start (strip raw))"; cases "py_int (range_end (strip raw))")
       (auto simp: malformed_def reversed_def denoted_def is_range_def range_start_def
          range_end_def int_or_raise_def bindE_def Let_def)
next
  case False
  then show ?thesis
    by (cases "py_int (strip raw)")
       (auto simp: malformed_def reversed_def denoted_def is_range_def int_or_raise_def
          bindE_def Let_def)
qed

lemma parse_loop_char:
  "parse_loop pgs raws =
     (if \<exists>raw\<in>set raws. malformed (strip raw) \<or> reversed (strip raw) then Inl ValueError
      else Inr (pgs \<union> (\<Union>raw\<in>set raws. denoted (strip raw))))"
proof (induction raws arbitrary: pgs)
  case Nil
  show ?case by simp
next
  case (Cons raw rest)
  show ?case unfolding parse_loop_step Cons.IH by auto
qed

lemma parse_page_range_char:
  "parse_page_range s =
     (if \<exists>part\<in>set (components s). malformed part \<or> reversed part then Inl ValueError
      else Inr (sorted_list_of_set (\<Union>part\<in>set (components s). denoted part)))"
  by (simp add: parse_page_range_def parse_loop_char components_def bindE_def)

lemma finite_pages: "finite (\<Union>part\<in>set (components s). denoted part)"
  by (simp add: finite_denoted)

lemma ex_parse_1: "parse_page_range ''1,3,5-7'' = Inr [1, 3, 5, 6, 7]"
  by code_simp

lemma ex_parse_2: "parse_page_range ''10-5'' = Inl ValueError"
  by code_simp

lemma ex_parse_3: "parse_page_range ''1,x'' = Inl ValueError"
  by code_simp

lemma ex_components: "components ''10-5'' = [''10-5'']" "components ''1,x'' = [''1'', ''x'']"
  by code_simp+

lemma ex_reversed: "reversed ''10-5''" "\<not> malformed ''10-5''"
  by code_simp+

lemma ex_malformed: "malformed ''x''" "\<not> reversed ''x''"
  by code_simp+


subsection \<open>Claim on the page-range parser\<close>

text \<open>
  Claim C9. The parser raises \<^verbatim>\<open>ValueError\<close>, and nothing else, exactly when some
  component of the string is malformed or is a range with \<^verbatim>\<open>start > end\<close>. Otherwise it
  returns the pages that the components denote, each once, in strictly increasing order.
  The string \<^verbatim>\<open>1,3,5-7\<close> parses to 1, 3, 5, 6, 7 and the string \<^verbatim>\<open>10-5\<close> is an error.
\<close>

theorem parse_page_range_sorted_or_error:
  "(parse_page_range s = Inl ValueError
      \<longleftrightarrow> (\<exists>part\<in>set (components s). malformed part \<or> reversed part))
   \<and> (\<forall>e. parse_page_range s = Inl e \<longrightarrow> e = ValueError)
   \<and> (\<forall>xs. parse_page_range s = Inr xs \<longrightarrow>
          sorted_wrt (<) xs \<and> distinct xs
          \<and> set xs = (\<Union>part\<in>set (components s). denoted part))
   \<and> parse_page_range ''1,3,5-7'' = Inr [1, 3, 5, 6, 7]
   \<and> parse_page_range ''10-5'' = Inl ValueError"
proof (intro conjI allI impI)
  show "parse_page_range s = Inl ValueError
      \<longleftrightarrow> (\<exists>part\<in>set (components s). malformed part \<or> reversed part)"
    unfolding parse_page_range_char by simp
  show "e = ValueError" if "parse_page_range s = Inl e" for e
    using that unfolding parse_page_range_char by (simp split: if_splits)
  show "parse_page_range ''1,3,5-7'' = Inr [1, 3, 5, 6, 7]" by (rule ex_parse_1)
  show "parse_page_range ''10-5'' = Inl ValueError" by (rule ex_parse_2)
next
  fix xs assume "parse_page_range s = Inr xs"
  then have xs: "xs = sorted_list_of_set (\<Union>part\<in>set (components s). denoted part)"
    unfolding parse_page_range_char by (simp split: if_splits)
  show "sorted_wrt (<) xs" unfolding xs by (rule strict_sorted_list_of_set)
  show "distinct xs" unfolding xs by (rule distinct_sorted_list_of_set)
  show "set xs = (\<Union>part\<in>set (components s). denoted part)"
    unfolding xs using finite_pages[of s] by (rule set_sorted_list_of_set)
qed

theorem parse_page_range_sorted_or_error_witness:
  "reversed ''10-5'' \<and> components ''10-5'' = [''10-5'']
   \<and> parse_page_range ''10-5'' = Inl ValueError
   \<and> malformed ''x'' \<and> components ''1,x'' = [''1'', ''x'']
   \<and> parse_page_range ''1,x'' = Inl ValueError
   \<and> parse_page_range ''1,3,5-7'' = Inr [1, 3, 5, 6, 7]
   \<and> sorted_wrt (<) [1, 3, 5, 6, 7 :: int] \<and> distinct [1, 3, 5, 6, 7 :: int]"
proof -
  note main = parse_page_range_sorted_or_error
  have a: "parse_page_range ''10-5'' = Inl ValueError"
    unfolding main[of "''10-5''", THEN conjunct1] ex_components using ex_reversed by simp
  have b: "parse_page_range ''1,x'' = Inl ValueError"
    unfolding main[of "''1,x''", THEN conjunct1] ex_components using ex_malformed by simp
  note c = main[of "''1,3,5-7''", THEN conjunct2, THEN conjunct2, THEN conjunct1,
      rule_format, OF ex_parse_1]
  show ?thesis
    by (intro conjI)
       (rule ex_reversed ex_components a ex_malformed b ex_parse_1 c[THEN conjunct1]
          c[THEN conjunct2, THEN conjunct1])+
qed

end
